theory Spec2Isabelle
  imports Complex_Main "HOL-Library.Multiset"
begin

section \<open>JavaScript numbers that carry calendar arithmetic\<close>

text \<open>
  The year grid of \<^verbatim>\<open>src/components/YearHeatmap.js\<close> computes with time values, day
  counts and week indices. All of them are integers or NaN, so they are modelled as
  \<open>int option\<close> with \<open>None\<close> for NaN. Every operation propagates NaN and every
  comparison with NaN is false, as in JavaScript.
\<close>

type_synonym number = "int option"

definition nadd :: "number \<Rightarrow> number \<Rightarrow> number" where
  "nadd a b = (case (a, b) of (Some x, Some y) \<Rightarrow> Some (x + y) | _ \<Rightarrow> None)"

definition nsub :: "number \<Rightarrow> number \<Rightarrow> number" where
  "nsub a b = (case (a, b) of (Some x, Some y) \<Rightarrow> Some (x - y) | _ \<Rightarrow> None)"

definition nlt :: "number \<Rightarrow> number \<Rightarrow> bool" where
  "nlt a b = (case (a, b) of (Some x, Some y) \<Rightarrow> x < y | _ \<Rightarrow> False)"

definition nge :: "number \<Rightarrow> number \<Rightarrow> bool" where
  "nge a b = (case (a, b) of (Some x, Some y) \<Rightarrow> y \<le> x | _ \<Rightarrow> False)"

definition Math_floor_div :: "number \<Rightarrow> int \<Rightarrow> number" where
  \<comment> \<open>\<^verbatim>\<open>Math.floor(a / k)\<close> for a positive integer \<open>k\<close>\<close>
  "Math_floor_div a k = map_option (\<lambda>x. x div k) a"

definition Math_ceil_div :: "number \<Rightarrow> int \<Rightarrow> number" where
  \<comment> \<open>\<^verbatim>\<open>Math.ceil(a / k)\<close> for a positive integer \<open>k\<close>\<close>
  "Math_ceil_div a k = map_option (\<lambda>x. - ((- x) div k)) a"

definition Math_max :: "number \<Rightarrow> number \<Rightarrow> number" where
  "Math_max a b = (case (a, b) of (Some x, Some y) \<Rightarrow> Some (max x y) | _ \<Rightarrow> None)"

text \<open>
  The counting loop \<^verbatim>\<open>for (let i = a; i < n; i += 1) body\<close>, with the loop state
  threaded through the body. A NaN bound makes the test false at once.
\<close>

function for_loop :: "int \<Rightarrow> number \<Rightarrow> (int \<Rightarrow> 's \<Rightarrow> 's) \<Rightarrow> 's \<Rightarrow> 's" where
  "for_loop i n body s = (if nlt (Some i) n then for_loop (i + 1) n body (body i s) else s)"
  by pat_completeness auto
termination
  by (relation "measure (\<lambda>(i, n, body, s). case n of None \<Rightarrow> 0 | Some k \<Rightarrow> nat (k - i))")
     (auto simp: nlt_def split: option.splits)

declare for_loop.simps [simp del]

section \<open>Time values and dates (ECMA-262, Date objects)\<close>

text \<open>
  \<^verbatim>\<open>Date.UTC\<close> and the \<^verbatim>\<open>getUTC...\<close> accessors are the platform's. They are
  modelled after the abstract operations of ECMA-262 (section "Time Values and Time
  Range"): Day, DaysInYear, DayFromYear, YearFromTime, MonthFromTime, DateFromTime,
  WeekDay, MakeDay, MakeDate, MakeFullYear and TimeClip. A time value is a number of
  milliseconds since 1970-01-01T00:00:00Z; a Date object is its time value, NaN for an
  invalid Date.
\<close>

definition msPerDay :: int where
  "msPerDay = 86400000"

definition Day :: "int \<Rightarrow> int" where
  "Day t = t div msPerDay"

definition DaysInYear :: "int \<Rightarrow> int" where
  "DaysInYear y =
     (if y mod 4 \<noteq> 0 then 365
      else if y mod 100 \<noteq> 0 then 366
      else if y mod 400 \<noteq> 0 then 365
      else 366)"

definition DayFromYear :: "int \<Rightarrow> int" where
  "DayFromYear y =
     365 * (y - 1970) + (y - 1969) div 4 - (y - 1901) div 100 + (y - 1601) div 400"

lemma div_succ_int:
  fixes x k :: int
  assumes "0 < k"
  shows "(x + 1) div k = x div k + (if (x + 1) mod k = 0 then 1 else 0)"
proof -
  have r: "0 \<le> x mod k" "x mod k < k" using assms by simp_all
  have split: "x + 1 = k * (x div k) + (x mod k + 1)" by simp
  show ?thesis
  proof (cases "x mod k + 1 = k")
    case True
    have "(x + 1) mod k = (k * (x div k) + k) mod k" using split True by simp
    then have m: "(x + 1) mod k = 0" by simp
    have "(x + 1) div k = (k * (x div k) + k) div k" using split True by simp
    also have "\<dots> = x div k + 1" using assms by simp
    finally show ?thesis using m by simp
  next
    case False
    then have lt: "x mod k + 1 < k" using r by simp
    have "(x + 1) mod k = (k * (x div k) + (x mod k + 1)) mod k" using split by simp
    also have "\<dots> = (x mod k + 1) mod k" by (simp only: mod_mult_self4)
    also have "\<dots> = x mod k + 1" using lt r by simp
    finally have m: "(x + 1) mod k \<noteq> 0" using r by simp
    have "(x + 1) div k = (k * (x div k) + (x mod k + 1)) div k" using split by simp
    also have "\<dots> = x div k + (x mod k + 1) div k" using assms by (simp only: div_mult_self4)
    also have "(x mod k + 1) div k = 0" using lt r by simp
    finally show ?thesis using m by simp
  qed
qed

lemma mod_sub_mult: "(y - k * c) mod k = y mod (k::int)"
proof -
  have "y - k * c = y + k * (- c)" by simp
  then show ?thesis by (simp only: mod_mult_self2)
qed

lemma DayFromYear_next: "DayFromYear (y + 1) = DayFromYear y + DaysInYear y"
proof -
  have a: "(y + 1 - 1969) div 4 = (y - 1969) div 4 + (if y mod 4 = 0 then 1 else 0)"
  proof -
    have "(y - 1968) mod 4 = (y - 4 * 492) mod 4" by simp
    also have "\<dots> = y mod 4" by (rule mod_sub_mult)
    finally have "((y - 1969) + 1) mod 4 = y mod 4" by simp
    then show ?thesis using div_succ_int [of 4 "y - 1969"] by simp
  qed
  have b: "(y + 1 - 1901) div 100 = (y - 1901) div 100 + (if y mod 100 = 0 then 1 else 0)"
  proof -
    have "(y - 1900) mod 100 = (y - 100 * 19) mod 100" by simp
    also have "\<dots> = y mod 100" by (rule mod_sub_mult)
    finally have "((y - 1901) + 1) mod 100 = y mod 100" by simp
    then show ?thesis using div_succ_int [of 100 "y - 1901"] by simp
  qed
  have c: "(y + 1 - 1601) div 400 = (y - 1601) div 400 + (if y mod 400 = 0 then 1 else 0)"
  proof -
    have "(y - 1600) mod 400 = (y - 400 * 4) mod 400" by simp
    also have "\<dots> = y mod 400" by (rule mod_sub_mult)
    finally have "((y - 1601) + 1) mod 400 = y mod 400" by simp
    then show ?thesis using div_succ_int [of 400 "y - 1601"] by simp
  qed
  have d: "y mod 4 = 0" if "y mod 100 = 0"
  proof -
    have "(100::int) = 4 * 25" by simp
    then have "(4::int) dvd 100" by (metis dvd_triv_left)
    moreover have "100 dvd y" using that by (simp add: dvd_eq_mod_eq_0)
    ultimately have "4 dvd y" by (rule dvd_trans)
    then show ?thesis by (simp add: dvd_eq_mod_eq_0)
  qed
  have e: "y mod 100 = 0" if "y mod 400 = 0"
  proof -
    have "(400::int) = 100 * 4" by simp
    then have "(100::int) dvd 400" by (metis dvd_triv_left)
    moreover have "400 dvd y" using that by (simp add: dvd_eq_mod_eq_0)
    ultimately have "100 dvd y" by (rule dvd_trans)
    then show ?thesis by (simp add: dvd_eq_mod_eq_0)
  qed
  show ?thesis
    unfolding DayFromYear_def DaysInYear_def a b c using d e by auto
qed

lemma DaysInYear_cases: "DaysInYear y = 365 \<or> DaysInYear y = 366"
  by (simp add: DaysInYear_def)

text \<open>
  \<open>YearFromTime t\<close> is "the largest integer \<open>y\<close> such that \<open>TimeFromYear y \<le> t\<close>".
  It is computed by a search upwards from a year that is not after the year of \<open>t\<close>.
\<close>

function year_search :: "int \<Rightarrow> int \<Rightarrow> int" where
  "year_search d y = (if DayFromYear (y + 1) \<le> d then year_search d (y + 1) else y)"
  by pat_completeness auto
termination
proof (relation "measure (\<lambda>(d, y). nat (d - DayFromYear y))")
  show "wf (measure (\<lambda>(d, y). nat (d - DayFromYear y)))" by simp
next
  fix d y :: int
  assume "DayFromYear (y + 1) \<le> d"
  moreover have "0 < DaysInYear y" by (simp add: DaysInYear_def)
  ultimately show "((d, y + 1), (d, y)) \<in> measure (\<lambda>(d, y). nat (d - DayFromYear y))"
    by (simp add: DayFromYear_next)
qed

declare year_search.simps [simp del]

definition YearFromDay :: "int \<Rightarrow> int" where
  "YearFromDay d = year_search d (1970 + (if 0 \<le> d then d div 366 else d div 365))"

definition YearFromTime :: "int \<Rightarrow> int" where
  "YearFromTime t = YearFromDay (Day t)"

definition InLeapYear :: "int \<Rightarrow> bool" where
  "InLeapYear t = (DaysInYear (YearFromTime t) = 366)"

definition DayWithinYear :: "int \<Rightarrow> int" where
  "DayWithinYear t = Day t - DayFromYear (YearFromTime t)"

definition leap_days :: "bool \<Rightarrow> int" where
  "leap_days leap = (if leap then 1 else 0)"

definition MonthFromTime :: "int \<Rightarrow> int" where
  "MonthFromTime t =
     (let d = DayWithinYear t; l = leap_days (InLeapYear t) in
      if d < 31 then 0
      else if d < 59 + l then 1
      else if d < 90 + l then 2
      else if d < 120 + l then 3
      else if d < 151 + l then 4
      else if d < 181 + l then 5
      else if d < 212 + l then 6
      else if d < 243 + l then 7
      else if d < 273 + l then 8
      else if d < 304 + l then 9
      else if d < 334 + l then 10
      else 11)"

text \<open>The day within the year on which month \<open>m\<close> (0 to 11) begins.\<close>

definition month_start :: "int \<Rightarrow> bool \<Rightarrow> int" where
  "month_start m leap =
     (let l = leap_days leap in
      if m = 0 then 0
      else if m = 1 then 31
      else if m = 2 then 59 + l
      else if m = 3 then 90 + l
      else if m = 4 then 120 + l
      else if m = 5 then 151 + l
      else if m = 6 then 181 + l
      else if m = 7 then 212 + l
      else if m = 8 then 243 + l
      else if m = 9 then 273 + l
      else if m = 10 then 304 + l
      else 334 + l)"

definition DateFromTime :: "int \<Rightarrow> int" where
  "DateFromTime t = DayWithinYear t - month_start (MonthFromTime t) (InLeapYear t) + 1"

definition WeekDay :: "int \<Rightarrow> int" where
  "WeekDay t = (Day t + 4) mod 7"

definition MakeFullYear :: "int \<Rightarrow> int" where
  "MakeFullYear y = (if 0 \<le> y \<and> y \<le> 99 then 1900 + y else y)"

definition MakeDay :: "int \<Rightarrow> int \<Rightarrow> int \<Rightarrow> int" where
  "MakeDay year month date =
     (let ym = year + month div 12; mn = month mod 12 in
      DayFromYear ym + month_start mn (DaysInYear ym = 366) + date - 1)"

definition MakeDate :: "int \<Rightarrow> int \<Rightarrow> int" where
  "MakeDate day time = day * msPerDay + time"

definition TimeClip :: "int \<Rightarrow> number" where
  "TimeClip t = (if 8640000000000000 < \<bar>t\<bar> then None else Some t)"

definition Date_UTC :: "int \<Rightarrow> int \<Rightarrow> int \<Rightarrow> number" where
  \<comment> \<open>\<^verbatim>\<open>new Date(Date.UTC(year, month, date))\<close> for integer arguments\<close>
  "Date_UTC year month date = TimeClip (MakeDate (MakeDay (MakeFullYear year) month date) 0)"

definition getTime :: "number \<Rightarrow> number" where
  "getTime d = d"

definition getUTCFullYear :: "number \<Rightarrow> number" where
  "getUTCFullYear d = map_option YearFromTime d"

definition getUTCMonth :: "number \<Rightarrow> number" where
  "getUTCMonth d = map_option MonthFromTime d"

definition getUTCDate :: "number \<Rightarrow> number" where
  "getUTCDate d = map_option DateFromTime d"

definition getUTCDay :: "number \<Rightarrow> number" where
  "getUTCDay d = map_option WeekDay d"

section \<open>Strings\<close>

definition digit_char :: "nat \<Rightarrow> char" where
  "digit_char n = ''0123456789'' ! n"

function string_of_nat :: "nat \<Rightarrow> string" where
  "string_of_nat n =
     (if n < 10 then [digit_char n] else string_of_nat (n div 10) @ [digit_char (n mod 10)])"
  by pat_completeness auto
termination
  by (relation "measure id") auto

declare string_of_nat.simps [simp del]

definition String_number :: "number \<Rightarrow> string" where
  \<comment> \<open>\<^verbatim>\<open>String(n)\<close> and template interpolation of an integer or NaN\<close>
  "String_number n =
     (case n of
        None \<Rightarrow> ''NaN''
      | Some i \<Rightarrow> if i < 0 then CHR ''-'' # string_of_nat (nat (- i)) else string_of_nat (nat i))"

definition padStart :: "nat \<Rightarrow> char \<Rightarrow> string \<Rightarrow> string" where
  "padStart n c s = replicate (n - length s) c @ s"

definition toDateKey :: "number \<Rightarrow> string" where
  "toDateKey date =
     (let y = getUTCFullYear date;
          m = padStart 2 CHR ''0'' (String_number (nadd (getUTCMonth date) (Some 1)));
          d = padStart 2 CHR ''0'' (String_number (getUTCDate date))
      in String_number y @ ''-'' @ m @ ''-'' @ d)"

section \<open>JavaScript values and entries\<close>

text \<open>
  A raw entry is whatever \<^verbatim>\<open>response.json()\<close> gave: a JSON value, or \<^verbatim>\<open>undefined\<close>
  where a property is absent. A finite number is a rational (every finite double is
  one; the code does no arithmetic on these numbers). An object is the list of its own
  properties; \<open>map_of\<close> reads a property.
\<close>

datatype jsnum = Fin rat | NaN | PosInf | NegInf

datatype jsval =
    JUndefined
  | JNull
  | JBool bool
  | JNum jsnum
  | JStr string
  | JArr "jsval list"
  | JObj "(string \<times> jsval) list"

text \<open>
  The object literal \<^verbatim>\<open>{ id, date, dateKey, isSick, severity }\<close> that
  \<^verbatim>\<open>normalizeEntry\<close> returns. \<open>severity\<close> is a number or \<^verbatim>\<open>null\<close> (\<open>None\<close>).
\<close>

record entry =
  entry_id :: jsval
  date :: jsval
  dateKey :: string
  isSick :: bool
  severity :: "jsnum option"

section \<open>The year grid (YearHeatmap.js)\<close>

definition startOfYearUtc :: "int \<Rightarrow> number" where
  "startOfYearUtc year = Date_UTC year 0 1"

definition startOfNextYearUtc :: "int \<Rightarrow> number" where
  "startOfNextYearUtc year = Date_UTC (year + 1) 0 1"

definition dayDiffUtc :: "number \<Rightarrow> number \<Rightarrow> number" where
  "dayDiffUtc a b = Math_floor_div (nsub (getTime b) (getTime a)) 86400000"

text \<open>
  \<^verbatim>\<open>monthName\<close> formats a Date with \<^verbatim>\<open>toLocaleString('en-US', { month: 'short' })\<close>,
  which depends on the host's time zone; the formatter is the parameter \<open>L\<close>.
\<close>

definition monthName :: "(number \<Rightarrow> string) \<Rightarrow> int \<Rightarrow> string" where
  "monthName L month = L (Date_UTC 2020 month 1)"

record day_cell =
  cell_date :: number
  cell_dateKey :: string
  cell_entry :: "entry option"

record week_column =
  index :: int
  days :: "day_cell option list"
  monthBreakBefore :: bool

record month_label =
  label :: string
  startWeek :: number
  spanWeeks :: number

record year_grid =
  weeks :: "week_column list"
  monthLayout :: "month_label list"

text \<open>
  \<^verbatim>\<open>entriesByKey\<close>: the entries keyed by \<^verbatim>\<open>dateKey\<close>, a later entry replacing an
  earlier one with the same key.
\<close>

definition entriesByKey :: "entry list \<Rightarrow> (string \<rightharpoonup> entry)" where
  "entriesByKey entries = foldl (\<lambda>m e. m(dateKey e \<mapsto> e)) Map.empty entries"

text \<open>The body of the loop over the months \<^verbatim>\<open>m = 0, ..., 11\<close>.\<close>

definition month_body ::
  "(number \<Rightarrow> string) \<Rightarrow> int \<Rightarrow> number \<Rightarrow> number \<Rightarrow> number \<Rightarrow> int \<Rightarrow>
   number set \<times> month_label list \<Rightarrow> number set \<times> month_label list" where
  "month_body L year jan1 nextJan1 offset m acc =
     (let monthStart = Date_UTC year m 1;
          monthEnd = (if m = 11 then nextJan1 else Date_UTC year (m + 1) 1);
          monthStartDay = dayDiffUtc jan1 monthStart;
          monthEndDay = dayDiffUtc jan1 monthEnd;
          startFlat = nadd offset monthStartDay;
          endFlatExclusive = nadd offset monthEndDay;
          startWeek = Math_floor_div startFlat 7;
          endWeek = Math_ceil_div endFlatExclusive 7;
          monthStarts = (if nlt (Some 0) startWeek then insert startWeek (fst acc) else fst acc)
      in (monthStarts,
          snd acc @ [\<lparr>label = monthName L m, startWeek = startWeek,
                     spanWeeks = Math_max (Some 1) (nsub endWeek startWeek)\<rparr>]))"

text \<open>The body of the loop over the days \<^verbatim>\<open>d = 0, ..., 6\<close> of week \<open>w\<close>.\<close>

definition day_body ::
  "int \<Rightarrow> (string \<rightharpoonup> entry) \<Rightarrow> number \<Rightarrow> number \<Rightarrow> int \<Rightarrow> int \<Rightarrow>
   day_cell option list \<Rightarrow> day_cell option list" where
  "day_body year byKey offset totalDays w d ds =
     (let flatIndex = w * 7 + d;
          dayIndex = nsub (Some flatIndex) offset
      in if nlt dayIndex (Some 0) \<or> nge dayIndex totalDays then ds @ [None]
         else
           let date = Option.bind dayIndex (\<lambda>k. Date_UTC year 0 (1 + k));
               key = toDateKey date
           in ds @ [Some \<lparr>cell_date = date, cell_dateKey = key, cell_entry = byKey key\<rparr>])"

definition week_body ::
  "int \<Rightarrow> (string \<rightharpoonup> entry) \<Rightarrow> number \<Rightarrow> number \<Rightarrow> number set \<Rightarrow> int \<Rightarrow>
   week_column list \<Rightarrow> week_column list" where
  "week_body year byKey offset totalDays monthStarts w weekColumns =
     weekColumns @
       [\<lparr>index = w,
         days = for_loop 0 (Some 7) (day_body year byKey offset totalDays w) [],
         monthBreakBefore = (Some w \<in> monthStarts)\<rparr>]"

text \<open>
  The grid that \<^verbatim>\<open>YearHeatmap({ year, entries })\<close> computes in its second
  \<^verbatim>\<open>useMemo\<close>: the week columns and the month layout.
\<close>

definition YearHeatmap :: "(number \<Rightarrow> string) \<Rightarrow> int \<Rightarrow> entry list \<Rightarrow> year_grid" where
  "YearHeatmap L year entries =
     (let byKey = entriesByKey entries;
          jan1 = startOfYearUtc year;
          nextJan1 = startOfNextYearUtc year;
          totalDays = dayDiffUtc jan1 nextJan1;
          offset = getUTCDay jan1;
          totalCells = nadd offset totalDays;
          weekCount = Math_ceil_div totalCells 7;
          months = for_loop 0 (Some 12) (month_body L year jan1 nextJan1 offset) ({}, []);
          weekColumns =
            for_loop 0 weekCount (week_body year byKey offset totalDays (fst months)) []
      in \<lparr>weeks = weekColumns, monthLayout = snd months\<rparr>)"

section \<open>Conversions of JavaScript values\<close>

text \<open>
  What the code leaves to the platform and the model cannot compute: the date parser
  (\<^verbatim>\<open>Date.parse\<close>, implementation-defined outside the ISO format), the numeric value of
  a string that is not a short string of digits, the text of a number, and the message
  of an exception that the engine itself throws. They are the parameter \<open>P\<close> of the
  functions below.
\<close>

datatype error = TypeError | RangeError | Error string

record platform =
  Date_parse :: "string \<Rightarrow> number"
  StringToNumber :: "string \<Rightarrow> jsnum"
  Number_toString :: "jsnum \<Rightarrow> string"
  native_message :: "error \<Rightarrow> string"

text \<open>A thrown exception is the \<open>Inl\<close> of a result; \<open>bind_err\<close> runs the next step unless one was thrown.\<close>

definition bind_err :: "error + 'a \<Rightarrow> ('a \<Rightarrow> error + 'b) \<Rightarrow> error + 'b" where
  "bind_err r f = (case r of Inl e \<Rightarrow> Inl e | Inr v \<Rightarrow> f v)"

definition truthy :: "jsval \<Rightarrow> bool" where
  "truthy v =
     (case v of
        JUndefined \<Rightarrow> False
      | JNull \<Rightarrow> False
      | JBool b \<Rightarrow> b
      | JNum n \<Rightarrow> (case n of Fin r \<Rightarrow> r \<noteq> 0 | NaN \<Rightarrow> False | _ \<Rightarrow> True)
      | JStr s \<Rightarrow> s \<noteq> []
      | JArr _ \<Rightarrow> True
      | JObj _ \<Rightarrow> True)"

definition typeof :: "jsval \<Rightarrow> string" where
  "typeof v =
     (case v of
        JUndefined \<Rightarrow> ''undefined''
      | JNull \<Rightarrow> ''object''
      | JBool _ \<Rightarrow> ''boolean''
      | JNum _ \<Rightarrow> ''number''
      | JStr _ \<Rightarrow> ''string''
      | JArr _ \<Rightarrow> ''object''
      | JObj _ \<Rightarrow> ''object'')"

text \<open>
  \<^verbatim>\<open>v.name\<close>, for the property names the code reads (\<^verbatim>\<open>dateKey\<close>, \<^verbatim>\<open>date\<close>,
  \<^verbatim>\<open>isSick\<close>, \<^verbatim>\<open>id\<close>, \<^verbatim>\<open>_id\<close>, \<^verbatim>\<open>severity\<close>, \<^verbatim>\<open>entry\<close>, \<^verbatim>\<open>entries\<close>), none
  of which a prototype defines: a TypeError on \<^verbatim>\<open>undefined\<close> and \<^verbatim>\<open>null\<close>, the own
  property of an object, \<^verbatim>\<open>undefined\<close> otherwise.
\<close>

definition get_prop :: "jsval \<Rightarrow> string \<Rightarrow> error + jsval" where
  "get_prop v name =
     (case v of
        JUndefined \<Rightarrow> Inl TypeError
      | JNull \<Rightarrow> Inl TypeError
      | JObj ps \<Rightarrow> Inr (case map_of ps name of Some x \<Rightarrow> x | None \<Rightarrow> JUndefined)
      | _ \<Rightarrow> Inr JUndefined)"

definition js_or :: "jsval \<Rightarrow> jsval \<Rightarrow> jsval" where
  \<comment> \<open>\<^verbatim>\<open>a || b\<close>\<close>
  "js_or a b = (if truthy a then a else b)"

definition is_digit :: "char \<Rightarrow> bool" where
  "is_digit c = (c \<in> set ''0123456789'')"

definition digits_value :: "string \<Rightarrow> nat" where
  "digits_value s = foldl (\<lambda>n c. 10 * n + (of_char c - 48)) 0 s"

text \<open>The regular expression \<^verbatim>\<open>/^\d{4}-\d{2}-\d{2}$/\<close>.\<close>

fun date_key_pattern :: "string \<Rightarrow> bool" where
  "date_key_pattern [y1, y2, y3, y4, h1, m1, m2, h2, d1, d2] =
     (is_digit y1 \<and> is_digit y2 \<and> is_digit y3 \<and> is_digit y4 \<and> h1 = CHR ''-'' \<and>
      is_digit m1 \<and> is_digit m2 \<and> h2 = CHR ''-'' \<and> is_digit d1 \<and> is_digit d2)"
| "date_key_pattern _ = False"

definition isValidDateKey :: "jsval \<Rightarrow> bool" where
  "isValidDateKey v = (case v of JStr s \<Rightarrow> date_key_pattern s | _ \<Rightarrow> False)"

text \<open>
  \<^verbatim>\<open>ToString\<close>. An object is converted by \<^verbatim>\<open>OrdinaryToPrimitive\<close>: a value parsed from
  JSON holds no function, so an own property \<^verbatim>\<open>toString\<close> hides
  \<^verbatim>\<open>Object.prototype.toString\<close> with a value that cannot be called, and the conversion
  throws a TypeError (\<^verbatim>\<open>valueOf\<close>, own or inherited, never yields a primitive). With no
  such property the text is \<^verbatim>\<open>[object Object]\<close>. An array is joined with commas,
  \<^verbatim>\<open>undefined\<close> and \<^verbatim>\<open>null\<close> elements giving the empty string.
\<close>

definition join_results :: "(error + string) list \<Rightarrow> error + string" where
  "join_results rs =
     foldl (\<lambda>acc r. bind_err acc (\<lambda>a. bind_err r (\<lambda>s. Inr (a @ '','' @ s))))
       (case rs of [] \<Rightarrow> Inr [] | r # _ \<Rightarrow> r) (tl rs)"

fun ToString :: "platform \<Rightarrow> jsval \<Rightarrow> error + string" where
  "ToString P JUndefined = Inr ''undefined''"
| "ToString P JNull = Inr ''null''"
| "ToString P (JBool b) = Inr (if b then ''true'' else ''false'')"
| "ToString P (JNum n) = Inr (Number_toString P n)"
| "ToString P (JStr s) = Inr s"
| "ToString P (JObj ps) =
     (if ''toString'' \<in> fst ` set ps then Inl TypeError else Inr ''[object Object]'')"
| "ToString P (JArr xs) =
     join_results
       (map (\<lambda>x. if x = JUndefined \<or> x = JNull then Inr [] else ToString P x) xs)"

definition ToPrimitive :: "platform \<Rightarrow> jsval \<Rightarrow> error + jsval" where
  "ToPrimitive P v =
     (case v of
        JObj _ \<Rightarrow> bind_err (ToString P v) (\<lambda>s. Inr (JStr s))
      | JArr _ \<Rightarrow> bind_err (ToString P v) (\<lambda>s. Inr (JStr s))
      | _ \<Rightarrow> Inr v)"

text \<open>
  \<^verbatim>\<open>StringToNumber\<close> on a string of at most 15 decimal digits is its value (the empty
  string is 0); below \<open>2^53\<close> no rounding occurs. Other strings are the platform's.
\<close>

definition string_to_number :: "platform \<Rightarrow> string \<Rightarrow> jsnum" where
  "string_to_number P s =
     (if list_all is_digit s \<and> length s \<le> 15 then Fin (of_nat (digits_value s))
      else StringToNumber P s)"

definition ToNumber_primitive :: "platform \<Rightarrow> jsval \<Rightarrow> jsnum" where
  "ToNumber_primitive P v =
     (case v of
        JUndefined \<Rightarrow> NaN
      | JNull \<Rightarrow> Fin 0
      | JBool b \<Rightarrow> Fin (if b then 1 else 0)
      | JNum n \<Rightarrow> n
      | JStr s \<Rightarrow> string_to_number P s
      | _ \<Rightarrow> NaN)"

definition Number :: "platform \<Rightarrow> jsval \<Rightarrow> error + jsnum" where
  \<comment> \<open>\<^verbatim>\<open>Number(v)\<close>\<close>
  "Number P v = bind_err (ToPrimitive P v) (\<lambda>p. Inr (ToNumber_primitive P p))"

definition truncate_rat :: "rat \<Rightarrow> int" where
  "truncate_rat r = (if 0 \<le> r then \<lfloor>r\<rfloor> else \<lceil>r\<rceil>)"

definition time_of_number :: "jsnum \<Rightarrow> number" where
  \<comment> \<open>\<^verbatim>\<open>TimeClip\<close> of a number: NaN unless finite and within the range of time values\<close>
  "time_of_number n =
     (case n of
        Fin r \<Rightarrow> if 8640000000000000 < \<bar>r\<bar> then None else Some (truncate_rat r)
      | _ \<Rightarrow> None)"

definition new_Date :: "platform \<Rightarrow> jsval \<Rightarrow> error + number" where
  \<comment> \<open>\<^verbatim>\<open>new Date(v)\<close>: the time value of the Date, NaN for an invalid Date\<close>
  "new_Date P v =
     bind_err (ToPrimitive P v)
       (\<lambda>p. Inr (case p of
                   JStr s \<Rightarrow> Option.bind (Date_parse P s) TimeClip
                 | _ \<Rightarrow> time_of_number (ToNumber_primitive P p)))"

definition Number_isNaN :: "number \<Rightarrow> bool" where
  "Number_isNaN n = (n = None)"

section \<open>Entry normalisation\<close>

definition normalizeEntry :: "platform \<Rightarrow> jsval \<Rightarrow> error + entry option" where
  "normalizeEntry P raw =
     (if \<not> truthy raw \<or> typeof raw \<noteq> ''object'' then Inr None
      else
        bind_err (get_prop raw ''dateKey'') (\<lambda>dateKey0.
        bind_err
          (if \<not> isValidDateKey dateKey0 then
             bind_err (get_prop raw ''date'') (\<lambda>rawDate.
               if truthy rawDate then
                 bind_err (new_Date P rawDate) (\<lambda>parsed.
                   Inr (if \<not> Number_isNaN (getTime parsed) then JStr (toDateKey parsed)
                        else dateKey0))
               else Inr dateKey0)
           else Inr dateKey0) (\<lambda>dateKey1.
        bind_err (get_prop raw ''isSick'') (\<lambda>sick.
        if \<not> isValidDateKey dateKey1 \<or> typeof sick \<noteq> ''boolean'' then Inr None
        else
          bind_err (get_prop raw ''id'') (\<lambda>id1.
          bind_err (get_prop raw ''_id'') (\<lambda>id2.
          bind_err (get_prop raw ''date'') (\<lambda>date1.
          bind_err
            (if sick = JBool True then
               bind_err (get_prop raw ''severity'') (\<lambda>sev.
               bind_err (Number P (js_or sev (JNum (Fin 1)))) (\<lambda>n. Inr (Some n)))
             else Inr None) (\<lambda>severity1.
          Inr (Some
            \<lparr>entry_id = js_or (js_or id1 id2) JNull,
             date = date1,
             dateKey = (case dateKey1 of JStr s \<Rightarrow> s | _ \<Rightarrow> []),
             isSick = (sick = JBool True),
             severity = severity1\<rparr>)))))))))"

section \<open>The home page: state, submit, save and fetch\<close>

text \<open>
  The state of \<^verbatim>\<open>HomePage\<close> (its \<^verbatim>\<open>useState\<close> cells), and the requests sent to the
  persistence service so far. \<^verbatim>\<open>formDate\<close> is a Date, held as its time value. The
  fields \<open>error_text\<close>, \<open>form_isSick\<close> and \<open>form_severity\<close> are the cells \<^verbatim>\<open>error\<close>,
  \<^verbatim>\<open>isSick\<close> and \<^verbatim>\<open>severity\<close>.
\<close>

record save_payload =
  payload_date :: string
  payload_isSick :: bool
  payload_severity :: "jsnum option"

record update_preview =
  existing :: entry
  next_payload :: save_payload
  preview_dateKey :: string

datatype request = FetchYears | FetchEntriesByYear int | SaveEntry save_payload

text \<open>
  What awaiting a call of \<^verbatim>\<open>api/entries.js\<close> gives: the parsed JSON body, or a thrown
  exception (a network error, a status that is not a success, a body that is not JSON).
\<close>

datatype response = Throws error | Returns jsval

record home_state =
  selectedYear :: int
  yearsFromApi :: "jsval list"
  entries :: "entry list"
  busy :: bool
  info :: string
  error_text :: string
  formDate :: number
  form_isSick :: bool
  form_severity :: jsnum
  existingEntryNotice :: "entry option"
  updatePreview :: "update_preview option"
  requests :: "request list"

definition err_message :: "platform \<Rightarrow> error \<Rightarrow> string" where
  \<comment> \<open>\<^verbatim>\<open>err.message\<close>\<close>
  "err_message P e = (case e of Error m \<Rightarrow> m | _ \<Rightarrow> native_message P e)"

definition message_or :: "string \<Rightarrow> string \<Rightarrow> string" where
  \<comment> \<open>\<^verbatim>\<open>err.message || fallback\<close>\<close>
  "message_or m fallback = (if m \<noteq> [] then m else fallback)"









text \<open>
  \<^verbatim>\<open>Array.prototype.sort\<close> with a comparator. ECMA-262 fixes the result when the
  comparator is consistent (any stable sort gives it) and leaves the order to the
  implementation otherwise. The model is the stable insertion sort, which engines run on
  short arrays: each element moves left past the elements that compare greater than it.
  A comparator result of NaN counts as 0. \<open>insert_sorted\<close> works on the reversed prefix.
\<close>

fun insert_sorted :: "('a \<Rightarrow> 'a \<Rightarrow> error + number) \<Rightarrow> 'a \<Rightarrow> 'a list \<Rightarrow> error + 'a list" where
  "insert_sorted cmp x [] = Inr [x]"
| "insert_sorted cmp x (r # rs) =
     bind_err (cmp r x) (\<lambda>v.
       if nlt (Some 0) v then bind_err (insert_sorted cmp x rs) (\<lambda>rs'. Inr (r # rs'))
       else Inr (x # r # rs))"

fun sort_loop :: "('a \<Rightarrow> 'a \<Rightarrow> error + number) \<Rightarrow> 'a list \<Rightarrow> 'a list \<Rightarrow> error + 'a list" where
  "sort_loop cmp rs [] = Inr (rev rs)"
| "sort_loop cmp rs (x # xs) = bind_err (insert_sorted cmp x rs) (\<lambda>rs'. sort_loop cmp rs' xs)"

definition js_sort :: "('a \<Rightarrow> 'a \<Rightarrow> error + number) \<Rightarrow> 'a list \<Rightarrow> error + 'a list" where
  "js_sort cmp xs = sort_loop cmp [] xs"

definition date_cmp :: "platform \<Rightarrow> entry \<Rightarrow> entry \<Rightarrow> error + number" where
  \<comment> \<open>\<^verbatim>\<open>(a, b) => new Date(a.date).getTime() - new Date(b.date).getTime()\<close>\<close>
  "date_cmp P a b =
     bind_err (new_Date P (date a)) (\<lambda>x.
     bind_err (new_Date P (date b)) (\<lambda>y. Inr (nsub (getTime x) (getTime y))))"

text \<open>The state updater that \<^verbatim>\<open>commitSave\<close> passes to \<^verbatim>\<open>setEntries\<close>: the merge step.\<close>

definition merge_saved :: "platform \<Rightarrow> entry list \<Rightarrow> entry \<Rightarrow> error + entry list" where
  "merge_saved P prev saved =
     js_sort (date_cmp P) (filter (\<lambda>item. dateKey item \<noteq> dateKey saved) prev @ [saved])"

text \<open>
  \<^verbatim>\<open>commitSave(payload)\<close>, given what awaiting \<^verbatim>\<open>saveEntry(payload, token)\<close> gives. An
  exception inside \<^verbatim>\<open>try\<close> is caught and shown. The updater of \<^verbatim>\<open>setEntries\<close> runs
  when React renders, outside the \<^verbatim>\<open>try\<close>: an exception of its comparator is not caught.
\<close>

definition commitSave :: "platform \<Rightarrow> home_state \<Rightarrow> save_payload \<Rightarrow> response \<Rightarrow> error + home_state" where
  "commitSave P s payload resp =
     (let s1 = s\<lparr>busy := True, error_text := [], info := [],
                 requests := requests s @ [SaveEntry payload]\<rparr>;
          saved =
            (case resp of
               Throws e \<Rightarrow> Inl e
             | Returns body \<Rightarrow>
                 bind_err (get_prop body ''entry'') (\<lambda>raw.
                 bind_err (normalizeEntry P raw) (\<lambda>n.
                   case n of
                     None \<Rightarrow> Inl (Error ''Invalid entry returned by server.'')
                   | Some e \<Rightarrow> Inr e)))
      in case saved of
           Inl err \<Rightarrow>
             Inr (s1\<lparr>error_text := message_or (err_message P err) ''Failed to save entry'',
                     busy := False\<rparr>)
         | Inr e \<Rightarrow>
             bind_err (merge_saved P (entries s1) e) (\<lambda>merged.
               Inr (s1\<lparr>entries := merged,
                       yearsFromApi :=
                         (if JNum (Fin (of_int (selectedYear s1))) \<in> set (yearsFromApi s1)
                          then yearsFromApi s1
                          else yearsFromApi s1 @ [JNum (Fin (of_int (selectedYear s1)))]),
                       updatePreview := None,
                       info := ''Entry saved.'',
                       busy := False\<rparr>)))"


text \<open>\<^verbatim>\<open>xs.map(f)\<close> for an \<open>f\<close> that may throw: the first exception ends the loop.\<close>

fun map_err :: "('a \<Rightarrow> error + 'b) \<Rightarrow> 'a list \<Rightarrow> error + 'b list" where
  "map_err f [] = Inr []"
| "map_err f (x # xs) = bind_err (f x) (\<lambda>y. bind_err (map_err f xs) (\<lambda>ys. Inr (y # ys)))"

text \<open>
  The effect that loads the entries of the selected year, given what awaiting
  \<^verbatim>\<open>fetchEntriesByYear(selectedYear, token)\<close> gives.
\<close>

definition fetchEntries :: "platform \<Rightarrow> home_state \<Rightarrow> response \<Rightarrow> home_state" where
  "fetchEntries P s resp =
     (let s1 = s\<lparr>busy := True, error_text := [], entries := [],
                 requests := requests s @ [FetchEntriesByYear (selectedYear s)]\<rparr>;
          normalized =
            (case resp of
               Throws e \<Rightarrow> Inl e
             | Returns data \<Rightarrow>
                 bind_err (get_prop data ''entries'') (\<lambda>es.
                   case es of
                     JArr xs \<Rightarrow>
                       bind_err (map_err (normalizeEntry P) xs) (\<lambda>ns. Inr (List.map_filter id ns))
                   | _ \<Rightarrow> Inr []))
      in case normalized of
           Inl err \<Rightarrow>
             s1\<lparr>entries := [],
                error_text := message_or (err_message P err) ''Failed to load entries'',
                busy := False\<rparr>
         | Inr ns \<Rightarrow> s1\<lparr>entries := ns, busy := False\<rparr>)"

section \<open>Notions used in the statements and proofs\<close>

text \<open>The slots of a grid in flat order, and those that hold a day.\<close>

definition slots :: "year_grid \<Rightarrow> day_cell option list" where
  "slots g = concat (map days (weeks g))"

definition nonEmptySlots :: "year_grid \<Rightarrow> day_cell list" where
  "nonEmptySlots g = List.map_filter id (slots g)"

text \<open>
  The years for which \<^verbatim>\<open>Date.UTC(year, 0, 1)\<close> and \<^verbatim>\<open>Date.UTC(year + 1, 0, 1)\<close>
  are January 1 of \<open>year\<close> and of \<open>year + 1\<close>: both inside the range of time values,
  and neither year between 0 and 99 (which \<^verbatim>\<open>Date.UTC\<close> reads as 1900 to 1999).
\<close>

definition plain_year :: "int \<Rightarrow> bool" where
  "plain_year year = ((100 \<le> year \<and> year \<le> 275759) \<or> (- 271820 \<le> year \<and> year \<le> - 2))"

text \<open>
  The en-US short month name of a Date on a host whose time zone is UTC: the formatter
  \<^verbatim>\<open>toLocaleString('en-US', { month: 'short' })\<close> of the concrete instances below.
\<close>

definition short_month_utc :: "number \<Rightarrow> string" where
  "short_month_utc d =
     (case getUTCMonth d of
        None \<Rightarrow> ''Invalid Date''
      | Some m \<Rightarrow>
          [''Jan'', ''Feb'', ''Mar'', ''Apr'', ''May'', ''Jun'',
           ''Jul'', ''Aug'', ''Sep'', ''Oct'', ''Nov'', ''Dec''] ! nat m)"

text \<open>The Gregorian leap-year rule, with the century rule.\<close>

definition leap_year :: "int \<Rightarrow> bool" where
  "leap_year y = (y mod 4 = 0 \<and> (y mod 100 \<noteq> 0 \<or> y mod 400 = 0))"

text \<open>
  The cell that the grid holds for day \<open>k\<close> of the year (counted from 0), and the slot
  at a flat index for a given offset and number of days.
\<close>

definition day_of :: "int \<Rightarrow> (string \<rightharpoonup> entry) \<Rightarrow> int \<Rightarrow> day_cell" where
  "day_of year byKey k =
     \<lparr>cell_date = Date_UTC year 0 (1 + k),
      cell_dateKey = toDateKey (Date_UTC year 0 (1 + k)),
      cell_entry = byKey (toDateKey (Date_UTC year 0 (1 + k)))\<rparr>"

definition cell_at :: "int \<Rightarrow> (string \<rightharpoonup> entry) \<Rightarrow> int \<Rightarrow> int \<Rightarrow> int \<Rightarrow> day_cell option" where
  "cell_at year byKey offset totalDays i =
     (if i - offset < 0 \<or> totalDays \<le> i - offset then None
      else Some (day_of year byKey (i - offset)))"

text \<open>The offset and the number of days that the grid of a plain year is built from.\<close>

definition year_offset :: "int \<Rightarrow> int" where
  "year_offset year = WeekDay (DayFromYear year * msPerDay)"

definition week_count :: "int \<Rightarrow> int" where
  "week_count year = - ((- (year_offset year + DaysInYear year)) div 7)"

text \<open>
  The month layout of a plain year, written out: month \<open>m\<close> ends where the next month
  begins, December at the end of the year.
\<close>

definition month_end :: "int \<Rightarrow> bool \<Rightarrow> int" where
  "month_end m leap = (if m = 11 then 365 + leap_days leap else month_start (m + 1) leap)"

definition month_item :: "(number \<Rightarrow> string) \<Rightarrow> int \<Rightarrow> int \<Rightarrow> month_label" where
  "month_item L year m =
     (let leap = (DaysInYear year = 366);
          startFlat = year_offset year + month_start m leap;
          endFlat = year_offset year + month_end m leap
      in \<lparr>label = monthName L m,
          startWeek = Some (startFlat div 7),
          spanWeeks = Some (max 1 (- ((- endFlat) div 7) - startFlat div 7))\<rparr>)"

text \<open>
  The week columns \<open>[s, e)\<close> that a month label spans: the label is laid out with
  \<^verbatim>\<open>gridColumn: `${startWeek + 1} / span ${spanWeeks}`\<close>. A list of spans is contiguous
  when each span begins inside or right after the one before it, non-overlapping when each
  begins at or after the end of the one before it.
\<close>

definition span_of :: "month_label \<Rightarrow> (int \<times> int) option" where
  "span_of l =
     (case (startWeek l, spanWeeks l) of (Some s, Some n) \<Rightarrow> Some (s, s + n) | _ \<Rightarrow> None)"

fun contiguous :: "(int \<times> int) list \<Rightarrow> bool" where
  "contiguous ((a, b) # (c, d) # rest) = (a \<le> c \<and> c \<le> b \<and> contiguous ((c, d) # rest))"
| "contiguous _ = True"

fun non_overlapping :: "(int \<times> int) list \<Rightarrow> bool" where
  "non_overlapping ((a, b) # (c, d) # rest) = (b \<le> c \<and> non_overlapping ((c, d) # rest))"
| "non_overlapping _ = True"

fun share_at_most_one :: "(int \<times> int) list \<Rightarrow> bool" where
  "share_at_most_one ((a, b) # (c, d) # rest) = (b \<le> c + 1 \<and> share_at_most_one ((c, d) # rest))"
| "share_at_most_one _ = True"

definition boundary_shared :: "int \<Rightarrow> (int \<times> int) list \<Rightarrow> bool" where
  \<comment> \<open>for each month but December: the next month begins right after the span when its
    first day is a Sunday (the first row of a week column), and in the last week column of
    the span otherwise, when the boundary between the two months lies inside that column\<close>
  "boundary_shared year sp =
     list_all (\<lambda>i. fst (sp ! Suc i) =
                   (if getUTCDay (Date_UTC year (int i + 1) 1) = Some 0 then snd (sp ! i)
                    else snd (sp ! i) - 1)) [0..<11]"

definition covered :: "(int \<times> int) list \<Rightarrow> int \<Rightarrow> bool" where
  "covered sp w = list_ex (\<lambda>(a, b). a \<le> w \<and> w < b) sp"

definition has_day :: "week_column \<Rightarrow> bool" where
  "has_day wk = list_ex (\<lambda>c. c \<noteq> None) (days wk)"

definition month_span :: "int \<Rightarrow> int \<Rightarrow> int \<times> int" where
  "month_span year m =
     (let leap = (DaysInYear year = 366) in
      ((year_offset year + month_start m leap) div 7,
       - ((- (year_offset year + month_end m leap)) div 7)))"

text \<open>
  The days of the calendar: the length of a month, and the date key of a day in the format
  that \<^verbatim>\<open>toDateKey\<close> writes (for the years 1000 to 9999 the canonical
  \<^verbatim>\<open>YYYY-MM-DD\<close>). A date key lies inside year \<open>y\<close> when it is \<open>calendar_key y m d\<close>
  for a month \<open>m\<close> from 1 to 12 and a day \<open>d\<close> from 1 to \<open>days_in_month y m\<close>.
\<close>

definition days_in_month :: "int \<Rightarrow> int \<Rightarrow> int" where
  \<comment> \<open>the length of month \<open>m\<close> (1 to 12) of year \<open>y\<close>\<close>
  "days_in_month y m =
     (if m = 2 then (if leap_year y then 29 else 28)
      else if m = 4 \<or> m = 6 \<or> m = 9 \<or> m = 11 then 30
      else 31)"

definition calendar_key :: "int \<Rightarrow> int \<Rightarrow> int \<Rightarrow> string" where
  \<comment> \<open>the date key of day \<open>d\<close> of month \<open>m\<close> (1 to 12) of year \<open>y\<close>, in the format of \<^verbatim>\<open>toDateKey\<close>\<close>
  "calendar_key y m d =
     String_number (Some y) @ ''-'' @ padStart 2 CHR ''0'' (String_number (Some m)) @ ''-'' @
     padStart 2 CHR ''0'' (String_number (Some d))"

definition leading_empty :: "year_grid \<Rightarrow> nat" where
  \<comment> \<open>the number of empty slots before the first day in week 0\<close>
  "leading_empty g =
     (case weeks g of [] \<Rightarrow> 0 | wk # _ \<Rightarrow> length (takeWhile (\<lambda>s. s = None) (days wk)))"

definition sick_entry :: "string \<Rightarrow> rat \<Rightarrow> entry" where
  \<comment> \<open>an entry as the server stores it: sick on the day with key \<open>k\<close>, with severity \<open>s\<close>\<close>
  "sick_entry k s =
     \<lparr>entry_id = JNull, date = JStr (k @ ''T00:00:00.000Z''), dateKey = k, isSick = True,
      severity = Some (Fin s)\<rparr>"

text \<open>
  A platform for the concrete instances. Its date parser reads the two forms of the ISO
  format on which all engines agree, \<^verbatim>\<open>YYYY-MM-DD\<close> and \<^verbatim>\<open>YYYY-MM-DDTHH:mm:ss.sssZ\<close>,
  and nothing else. No string is a number but the short strings of digits that the model
  itself reads; the text of a number is given for the integers only.
\<close>

fun time_pattern :: "string \<Rightarrow> bool" where
  "time_pattern [t, h1, h2, c1, m1, m2, c2, s1, s2, p, f1, f2, f3, z] =
     (t = CHR ''T'' \<and> is_digit h1 \<and> is_digit h2 \<and> c1 = CHR '':'' \<and> is_digit m1 \<and> is_digit m2 \<and>
      c2 = CHR '':'' \<and> is_digit s1 \<and> is_digit s2 \<and> p = CHR ''.'' \<and>
      is_digit f1 \<and> is_digit f2 \<and> is_digit f3 \<and> z = CHR ''Z'')"
| "time_pattern _ = False"

definition iso_parse :: "string \<Rightarrow> number" where
  "iso_parse s =
     (if date_key_pattern (take 10 s) \<and> (drop 10 s = [] \<or> time_pattern (drop 10 s)) then
        let y = int (digits_value (take 4 s));
            m = int (digits_value (take 2 (drop 5 s)));
            d = int (digits_value (take 2 (drop 8 s)));
            h = int (digits_value (take 2 (drop 11 s)));
            mi = int (digits_value (take 2 (drop 14 s)));
            sec = int (digits_value (take 2 (drop 17 s)));
            ms = int (digits_value (take 3 (drop 20 s)))
        in if 1 \<le> m \<and> m \<le> 12 \<and> 1 \<le> d \<and> d \<le> days_in_month y m \<and> h \<le> 23 \<and> mi \<le> 59 \<and> sec \<le> 59
           then TimeClip (MakeDate (MakeDay y (m - 1) d) (h * 3600000 + mi * 60000 + sec * 1000 + ms))
           else None
      else None)"

definition test_platform :: platform where
  "test_platform =
     \<lparr>Date_parse = iso_parse,
      StringToNumber = (\<lambda>s. NaN),
      Number_toString =
        (\<lambda>n. case n of
                Fin r \<Rightarrow> if r \<in> \<int> then String_number (Some \<lfloor>r\<rfloor>) else ''NaN''
              | NaN \<Rightarrow> ''NaN''
              | PosInf \<Rightarrow> ''Infinity''
              | NegInf \<Rightarrow> ''-Infinity''),
      native_message = (\<lambda>e. ''TypeError'')\<rparr>"

text \<open>Notions for the statements about \<^verbatim>\<open>normalizeEntry\<close>.\<close>

definition the_prop :: "jsval \<Rightarrow> string \<Rightarrow> jsval" where
  \<comment> \<open>a property of a value that is neither \<^verbatim>\<open>undefined\<close> nor \<^verbatim>\<open>null\<close>\<close>
  "the_prop v name = (case get_prop v name of Inr x \<Rightarrow> x | Inl _ \<Rightarrow> JUndefined)"

text \<open>What \<^verbatim>\<open>normalizeEntry\<close> does on a value that passes its first guard.\<close>

definition date_key_of :: "platform \<Rightarrow> jsval \<Rightarrow> error + jsval" where
  "date_key_of P raw =
     (if \<not> isValidDateKey (the_prop raw ''dateKey'') \<and> truthy (the_prop raw ''date'') then
        bind_err (new_Date P (the_prop raw ''date'')) (\<lambda>parsed.
          Inr (if parsed \<noteq> None then JStr (toDateKey parsed) else the_prop raw ''dateKey''))
      else Inr (the_prop raw ''dateKey''))"

definition severity_of :: "platform \<Rightarrow> jsval \<Rightarrow> error + jsnum option" where
  "severity_of P raw =
     (if the_prop raw ''isSick'' = JBool True then
        bind_err (Number P (js_or (the_prop raw ''severity'') (JNum (Fin 1)))) (\<lambda>n. Inr (Some n))
      else Inr None)"

definition is_primitive :: "jsval \<Rightarrow> bool" where
  "is_primitive v = (case v of JObj _ \<Rightarrow> False | JArr _ \<Rightarrow> False | _ \<Rightarrow> True)"

definition is_integer :: "rat \<Rightarrow> bool" where
  "is_integer r = (of_int \<lfloor>r\<rfloor> = r)"

definition severity_1_to_5 :: "jsnum \<Rightarrow> bool" where
  "severity_1_to_5 n = (case n of Fin r \<Rightarrow> is_integer r \<and> 1 \<le> r \<and> r \<le> 5 | _ \<Rightarrow> False)"

definition entry_invariant :: "entry \<Rightarrow> bool" where
  \<comment> \<open>the invariant of the data model: a severity from 1 to 5 if sick, none otherwise\<close>
  "entry_invariant e =
     (if isSick e then (case severity e of Some n \<Rightarrow> severity_1_to_5 n | None \<Rightarrow> False)
      else severity e = None)"

text \<open>Three raw entries of the concrete instances.\<close>

definition raw_sick :: "jsval \<Rightarrow> jsval" where
  \<comment> \<open>\<^verbatim>\<open>{ dateKey: "2024-03-05", isSick: true, severity: v }\<close>\<close>
  "raw_sick v = JObj [(''dateKey'', JStr ''2024-03-05''), (''isSick'', JBool True), (''severity'', v)]"

definition raw_healthy :: "jsval \<Rightarrow> jsval" where
  \<comment> \<open>\<^verbatim>\<open>{ dateKey: "2024-03-05", isSick: false, severity: v }\<close>\<close>
  "raw_healthy v = JObj [(''dateKey'', JStr ''2024-03-05''), (''isSick'', JBool False), (''severity'', v)]"

text \<open>
  Notions for the statements about the merge step: a collection is sorted ascending by date
  when the time of each entry's date is at most the time of every later entry's date.
\<close>

definition has_valid_date :: "platform \<Rightarrow> entry \<Rightarrow> bool" where
  \<comment> \<open>\<^verbatim>\<open>new Date(e.date)\<close> is a valid Date\<close>
  "has_valid_date P e = (case new_Date P (date e) of Inr (Some t) \<Rightarrow> True | _ \<Rightarrow> False)"

definition date_le :: "platform \<Rightarrow> entry \<Rightarrow> entry \<Rightarrow> bool" where
  \<comment> \<open>\<^verbatim>\<open>new Date(a.date).getTime() <= new Date(b.date).getTime()\<close>, false where a time is NaN\<close>
  "date_le P a b =
     (case (new_Date P (date a), new_Date P (date b)) of
        (Inr (Some x), Inr (Some y)) \<Rightarrow> x \<le> y
      | _ \<Rightarrow> False)"

definition sorted_by_date :: "platform \<Rightarrow> entry list \<Rightarrow> bool" where
  "sorted_by_date P es = sorted_wrt (date_le P) es"

definition home_2024 :: "entry list \<Rightarrow> home_state" where
  \<comment> \<open>the home page showing 2024 with the given collection, the form on June 1, nothing pending\<close>
  "home_2024 es =
     \<lparr>selectedYear = 2024, yearsFromApi = [], entries = es, busy = False, info = [],
      error_text = [], formDate = Date_UTC 2024 5 1, form_isSick = False, form_severity = Fin 1,
      existingEntryNotice = None, updatePreview = None, requests = []\<rparr>"

definition time_of :: "platform \<Rightarrow> entry \<Rightarrow> int" where
  "time_of P e = (case new_Date P (date e) of Inr (Some t) \<Rightarrow> t | _ \<Rightarrow> 0)"

definition dated_entry :: "string \<Rightarrow> bool \<Rightarrow> jsnum option \<Rightarrow> entry" where
  \<comment> \<open>the entry of the day with key \<open>k\<close>, its date the ISO string of that day's UTC midnight\<close>
  "dated_entry k sick sev =
     \<lparr>entry_id = JNull, date = JStr (k @ ''T00:00:00.000Z''), dateKey = k, isSick = sick,
      severity = sev\<rparr>"

definition raw_dated :: "string \<Rightarrow> jsval" where
  \<comment> \<open>\<^verbatim>\<open>{ dateKey: k, date: k + "T00:00:00.000Z", isSick: false }\<close>\<close>
  "raw_dated k =
     JObj [(''dateKey'', JStr k), (''date'', JStr (k @ ''T00:00:00.000Z'')), (''isSick'', JBool False)]"

definition healthy_payload :: "string \<Rightarrow> save_payload" where
  "healthy_payload k = \<lparr>payload_date = k @ ''T00:00:00.000Z'', payload_isSick = False, payload_severity = None\<rparr>"

definition undated_entry :: "string \<Rightarrow> entry" where
  \<comment> \<open>what \<^verbatim>\<open>normalizeEntry\<close> returns for \<^verbatim>\<open>{ dateKey: k, isSick: false }\<close>\<close>
  "undated_entry k = \<lparr>entry_id = JNull, date = JUndefined, dateKey = k, isSick = False, severity = None\<rparr>"




section \<open>Loops, calendar arithmetic and the structure of the grid\<close>

lemma for_loop_None: "for_loop i None body s = s"
  by (simp add: for_loop.simps nlt_def)

lemma for_loop_Some: "for_loop i (Some n) body s = fold body [i..n - 1] s"
proof (induction "nat (n - i)" arbitrary: i s)
  case 0
  then have "\<not> i < n" by simp
  then show ?case by (simp add: for_loop.simps nlt_def)
next
  case (Suc k)
  then have lt: "i < n" by linarith
  have k: "k = nat (n - (i + 1))" using Suc.hyps(2) by linarith
  have "[i..n - 1] = i # [i + 1..n - 1]" using lt by (simp add: upto_rec1)
  then show ?case using lt Suc.hyps(1) [OF k] by (simp add: for_loop.simps [of i] nlt_def)
qed

lemma fold_push: "fold (\<lambda>i acc. acc @ [f i]) xs acc = acc @ map f xs"
  by (induction xs arbitrary: acc) auto

lemma DayFromYear_mono: "a \<le> b \<Longrightarrow> DayFromYear a \<le> DayFromYear b"
proof (induction b rule: int_ge_induct)
  case base
  show ?case by simp
next
  case (step i)
  have "0 \<le> DaysInYear i" using DaysInYear_cases [of i] by auto
  then show ?case using step.IH by (simp add: DayFromYear_next)
qed

lemma DayFromYear_strict: "a < b \<Longrightarrow> DayFromYear a < DayFromYear b"
proof -
  assume "a < b"
  then have "a + 1 \<le> b" by simp
  then have "DayFromYear (a + 1) \<le> DayFromYear b" by (rule DayFromYear_mono)
  moreover have "0 < DaysInYear a" using DaysInYear_cases [of a] by auto
  ultimately show ?thesis by (simp add: DayFromYear_next)
qed

lemma DayFromYear_max: "DayFromYear 275760 = 99999744"
  by (simp add: DayFromYear_def)

lemma DayFromYear_min: "DayFromYear (- 271820) = - 99999744"
  by (simp add: DayFromYear_def)

lemma DayFromYear_range:
  assumes "- 271820 \<le> y" "y \<le> 275760"
  shows "\<bar>DayFromYear y\<bar> \<le> 99999744"
  using DayFromYear_mono [OF assms(1)] DayFromYear_mono [OF assms(2)]
  by (simp add: DayFromYear_max DayFromYear_min)


lemma MakeDay_jan1: "MakeDay y 0 1 = DayFromYear y"
  by (simp add: MakeDay_def month_start_def)

lemma TimeClip_day: "\<bar>d\<bar> \<le> 100000000 \<Longrightarrow> TimeClip (d * msPerDay) = Some (d * msPerDay)"
  by (simp add: TimeClip_def msPerDay_def abs_mult)

lemma MakeFullYear_plain: "\<not> (0 \<le> y \<and> y \<le> 99) \<Longrightarrow> MakeFullYear y = y"
  by (simp add: MakeFullYear_def)

text \<open>A day number \<open>n\<close> counted from January 1 of a year in range is a valid Date.\<close>

lemma Date_UTC_day:
  assumes "\<not> (0 \<le> y \<and> y \<le> 99)" "- 271820 \<le> y" "y \<le> 275759" "0 \<le> k" "k \<le> DaysInYear y"
  shows "Date_UTC y 0 (1 + k) = Some ((DayFromYear y + k) * msPerDay)"
proof -
  have lo: "- 99999744 \<le> DayFromYear y" using DayFromYear_mono [OF assms(2)] by (simp add: DayFromYear_min)
  have "y + 1 \<le> 275760" using assms(3) by simp
  then have "DayFromYear (y + 1) \<le> 99999744" using DayFromYear_mono [of "y + 1" 275760] by (simp add: DayFromYear_max)
  then have hi: "DayFromYear y + k \<le> 99999744" using assms(5) by (simp add: DayFromYear_next)
  have "\<bar>DayFromYear y + k\<bar> \<le> 100000000" using lo hi assms(4) by linarith
  then have "TimeClip ((DayFromYear y + k) * msPerDay) = Some ((DayFromYear y + k) * msPerDay)"
    by (rule TimeClip_day)
  then show ?thesis
    by (simp add: Date_UTC_def MakeDate_def MakeDay_def month_start_def MakeFullYear_plain [OF assms(1)])
qed

lemma plain_year_jan1:
  assumes "plain_year y"
  shows "startOfYearUtc y = Some (DayFromYear y * msPerDay)"
    and "startOfNextYearUtc y = Some ((DayFromYear y + DaysInYear y) * msPerDay)"
proof -
  have a: "\<not> (0 \<le> y \<and> y \<le> 99)" "- 271820 \<le> y" "y \<le> 275759"
    using assms by (auto simp: plain_year_def)
  have "0 \<le> DaysInYear y" using DaysInYear_cases [of y] by auto
  show "startOfYearUtc y = Some (DayFromYear y * msPerDay)"
    using Date_UTC_day [OF a, of 0] \<open>0 \<le> DaysInYear y\<close> by (simp add: startOfYearUtc_def)
  have b: "\<not> (0 \<le> y + 1 \<and> y + 1 \<le> 99)" using assms by (auto simp: plain_year_def)
  have "\<bar>DayFromYear (y + 1)\<bar> \<le> 99999744"
    using DayFromYear_range [of "y + 1"] a by simp
  then have "TimeClip (DayFromYear (y + 1) * msPerDay) = Some (DayFromYear (y + 1) * msPerDay)"
    using TimeClip_day [of "DayFromYear (y + 1)"] by simp
  then show "startOfNextYearUtc y = Some ((DayFromYear y + DaysInYear y) * msPerDay)"
    by (simp add: startOfNextYearUtc_def Date_UTC_def MakeDate_def MakeDay_jan1
        MakeFullYear_plain [OF b] DayFromYear_next)
qed

lemma dayDiffUtc_days: "dayDiffUtc (Some (a * msPerDay)) (Some (b * msPerDay)) = Some (b - a)"
proof -
  have "b * 86400000 - a * 86400000 = (b - a) * 86400000" by (simp add: algebra_simps)
  then show ?thesis
    by (simp add: dayDiffUtc_def getTime_def nsub_def Math_floor_div_def msPerDay_def)
qed

lemma Day_of_days: "Day (d * msPerDay) = d"
  by (simp add: Day_def msPerDay_def)

lemma WeekDay_range: "0 \<le> WeekDay t" "WeekDay t < 7"
  by (simp_all add: WeekDay_def)

lemma day_body_push:
  "day_body year byKey (Some offset) (Some totalDays) w d ds =
     ds @ [cell_at year byKey offset totalDays (w * 7 + d)]"
  by (simp add: day_body_def cell_at_def day_of_def nsub_def nlt_def nge_def Let_def)

lemma upto_0_6: "[0..6::int] = [0, 1, 2, 3, 4, 5, 6]"
  by (simp add: upto_rec1)

lemma upto_week: "[n * 7..n * 7 + 6] = [n * 7, n * 7 + 1, n * 7 + 2, n * 7 + 3, n * 7 + 4, n * 7 + 5, n * 7 + 6]"
  by (simp add: upto_rec1)

lemma week_days:
  "for_loop 0 (Some 7) (day_body year byKey (Some offset) (Some totalDays) w) [] =
     map (cell_at year byKey offset totalDays) [w * 7..w * 7 + 6]"
proof -
  have "day_body year byKey (Some offset) (Some totalDays) w =
          (\<lambda>d ds. ds @ [cell_at year byKey offset totalDays (w * 7 + d)])"
    by (intro ext) (rule day_body_push)
  then show ?thesis
    by (simp add: for_loop_Some fold_push upto_0_6 upto_week)
qed

lemma concat_weeks:
  "0 \<le> n \<Longrightarrow> concat (map (\<lambda>w. map f [w * 7..w * 7 + 6]) [0..n - 1]) = map f [0..n * 7 - 1]"
proof (induction n rule: int_ge_induct)
  case base
  show ?case by simp
next
  case (step n)
  have a: "[0..n + 1 - 1] = [0..n - 1] @ [n]" using step.hyps by (simp add: upto_rec2)
  have e: "(n + 1) * 7 - 1 = n * 7 + 6" by simp
  have b: "[0..(n + 1) * 7 - 1] = [0..n * 7 - 1] @ [n * 7..n * 7 + 6]"
    unfolding e using step.hyps by (intro upto_split1) simp_all
  show ?case unfolding a b using step.IH by simp
qed

lemma map_shift_upto: "map (\<lambda>i. g (i - c)) [a + c..b + c] = map g [a..b]"
proof (induction "nat (b - a + 1)" arbitrary: a)
  case 0
  then show ?case by simp
next
  case (Suc k)
  then have le: "a \<le> b" by linarith
  have k: "k = nat (b - (a + 1) + 1)" using Suc.hyps(2) by linarith
  have e: "a + c + 1 = a + 1 + c" by simp
  have "[a + c..b + c] = (a + c) # [a + 1 + c..b + c]" using le upto_rec1 [of "a + c" "b + c"] unfolding e by simp
  moreover have "[a..b] = a # [a + 1..b]" using le by (simp add: upto_rec1)
  ultimately show ?case using Suc.hyps(1) [OF k] by simp
qed

lemma map_filter_id_map: "List.map_filter id (map f xs) = List.map_filter f xs"
  by (induction xs) (simp_all split: option.splits)

lemma map_filter_append: "List.map_filter f (xs @ ys) = List.map_filter f xs @ List.map_filter f ys"
  by (induction xs) (simp_all split: option.splits)

lemma map_filter_all_None: "(\<And>x. x \<in> set xs \<Longrightarrow> f x = None) \<Longrightarrow> List.map_filter f xs = []"
  by (induction xs) simp_all

lemma map_filter_all_Some: "(\<And>x. x \<in> set xs \<Longrightarrow> f x = Some (h x)) \<Longrightarrow> List.map_filter f xs = map h xs"
  by (induction xs) simp_all

lemma map_filter_window:
  assumes "0 \<le> off" "0 \<le> td" "off + td \<le> N"
  shows "List.map_filter id
           (map (\<lambda>i. if i - off < 0 \<or> td \<le> i - off then None else Some (g (i - off))) [0..N - 1])
         = map g [0..td - 1]"
proof -
  let ?f = "\<lambda>i. if i - off < 0 \<or> td \<le> i - off then None else Some (g (i - off))"
  have s1: "[0..N - 1] = [0..off - 1] @ [off..N - 1]"
  proof (cases "off \<le> N - 1")
    case True
    then show ?thesis using assms(1) by (intro upto_split1) simp_all
  next
    case False
    then have "off = N" using assms by linarith
    then show ?thesis by simp
  qed
  have s2: "[off..N - 1] = [off..off + td - 1] @ [off + td..N - 1]"
  proof (cases "off + td \<le> N - 1")
    case True
    then show ?thesis using assms(2) by (intro upto_split1) simp_all
  next
    case False
    then have "off + td = N" using assms by linarith
    then show ?thesis by simp
  qed
  have f1: "List.map_filter ?f [0..off - 1] = []"
    by (rule map_filter_all_None) auto
  have f3: "List.map_filter ?f [off + td..N - 1] = []"
    by (rule map_filter_all_None) auto
  have f2: "List.map_filter ?f [off..off + td - 1] = map (\<lambda>i. g (i - off)) [off..off + td - 1]"
    by (rule map_filter_all_Some) auto
  have "map (\<lambda>i. g (i - off)) [0 + off..(td - 1) + off] = map g [0..td - 1]" by (rule map_shift_upto)
  then have sh: "map (\<lambda>i. g (i - off)) [off..off + td - 1] = map g [0..td - 1]" by (simp add: algebra_simps)
  have "List.map_filter id (map ?f [0..N - 1]) = List.map_filter ?f [0..N - 1]"
    by (rule map_filter_id_map)
  also have "\<dots> = List.map_filter ?f [0..off - 1] @ List.map_filter ?f [off..off + td - 1]
                      @ List.map_filter ?f [off + td..N - 1]"
    by (subst s1, subst s2) (simp only: map_filter_append)
  also have "\<dots> = map g [0..td - 1]" by (simp only: f1 f2 f3 sh append_Nil append_Nil2)
  finally show ?thesis .
qed

lemma week_body_push:
  "week_body year byKey offset totalDays monthStarts =
     (\<lambda>w acc. acc @ [\<lparr>index = w,
         days = for_loop 0 (Some 7) (day_body year byKey offset totalDays w) [],
         monthBreakBefore = (Some w \<in> monthStarts)\<rparr>])"
  by (intro ext) (simp add: week_body_def)

lemma ceil_div7: "x \<le> (- ((- x) div 7)) * (7::int)" "0 \<le> x \<Longrightarrow> 0 \<le> - ((- x) div (7::int))"
  by linarith+

lemma slots_plain_year:
  assumes "plain_year y"
  shows "slots (YearHeatmap L y es) =
           map (cell_at y (entriesByKey es) (year_offset y) (DaysInYear y)) [0..week_count y * 7 - 1]"
proof -
  have wc: "0 \<le> week_count y"
    unfolding week_count_def using WeekDay_range(1) [of "DayFromYear y * msPerDay"] DaysInYear_cases [of y]
    by (intro ceil_div7(2)) (auto simp: year_offset_def)
  have td: "dayDiffUtc (startOfYearUtc y) (startOfNextYearUtc y) = Some (DaysInYear y)"
    by (simp add: plain_year_jan1 [OF assms] dayDiffUtc_days)
  have off: "getUTCDay (startOfYearUtc y) = Some (year_offset y)"
    by (simp add: plain_year_jan1 [OF assms] getUTCDay_def year_offset_def)
  have cnt: "Math_ceil_div (nadd (Some (year_offset y)) (Some (DaysInYear y))) 7 = Some (week_count y)"
    by (simp add: Math_ceil_div_def nadd_def week_count_def)
  have "slots (YearHeatmap L y es) =
          concat (map (\<lambda>w. map (cell_at y (entriesByKey es) (year_offset y) (DaysInYear y)) [w * 7..w * 7 + 6])
             [0..week_count y - 1])"
    by (simp add: slots_def YearHeatmap_def Let_def td off cnt for_loop_Some [of 0 "week_count y"]
        week_body_push fold_push comp_def week_days)
  then show ?thesis using concat_weeks [OF wc] by simp
qed

lemma nonEmptySlots_plain_year:
  assumes "plain_year y"
  shows "nonEmptySlots (YearHeatmap L y es) = map (day_of y (entriesByKey es)) [0..DaysInYear y - 1]"
proof -
  have a: "0 \<le> year_offset y" unfolding year_offset_def by (rule WeekDay_range)
  have b: "0 \<le> DaysInYear y" using DaysInYear_cases [of y] by auto
  have c: "year_offset y + DaysInYear y \<le> week_count y * 7"
    unfolding week_count_def by (rule ceil_div7(1))
  have "cell_at y (entriesByKey es) (year_offset y) (DaysInYear y) =
          (\<lambda>i. if i - year_offset y < 0 \<or> DaysInYear y \<le> i - year_offset y then None
                else Some (day_of y (entriesByKey es) (i - year_offset y)))"
    by (intro ext) (simp add: cell_at_def)
  then show ?thesis
    using map_filter_window [OF a b c, of "day_of y (entriesByKey es)"]
    by (simp add: nonEmptySlots_def slots_plain_year [OF assms])
qed

lemma month_cases:
  fixes m :: int
  assumes "0 \<le> m" "m \<le> 11"
  shows "m = 0 \<or> m = 1 \<or> m = 2 \<or> m = 3 \<or> m = 4 \<or> m = 5 \<or> m = 6 \<or> m = 7 \<or> m = 8
         \<or> m = 9 \<or> m = 10 \<or> m = 11"
  using assms by arith

lemma month_start_bounds:
  assumes "0 \<le> m" "m \<le> 11"
  shows "0 \<le> month_start m leap" "month_start m leap + 28 \<le> month_end m leap"
    "month_end m leap \<le> 365 + leap_days leap"
  using month_cases [OF assms]
  by (auto simp: month_start_def month_end_def leap_days_def Let_def)

lemma DaysInYear_leap: "DaysInYear y = 365 + leap_days (DaysInYear y = 366)"
  using DaysInYear_cases [of y] by (auto simp: leap_days_def)

lemma Date_UTC_month:
  assumes "plain_year y" "0 \<le> m" "m \<le> 11"
  shows "Date_UTC y m 1 = Some ((DayFromYear y + month_start m (DaysInYear y = 366)) * msPerDay)"
proof -
  let ?k = "month_start m (DaysInYear y = 366)"
  have a: "\<not> (0 \<le> y \<and> y \<le> 99)" "- 271820 \<le> y" "y \<le> 275759"
    using assms(1) by (auto simp: plain_year_def)
  have k: "0 \<le> ?k" "?k \<le> DaysInYear y"
    using month_start_bounds [OF assms(2,3), of "DaysInYear y = 366"] DaysInYear_leap [of y] by auto
  have dm: "m div 12 = 0" "m mod 12 = m" using assms(2,3) by simp_all
  have "Date_UTC y m 1 = Date_UTC y 0 (1 + ?k)"
    by (simp add: Date_UTC_def MakeDay_def dm month_start_def [of 0] Let_def MakeFullYear_plain [OF a(1)])
  then show ?thesis using Date_UTC_day [OF a k] by simp
qed

lemma month_body_plain:
  assumes "plain_year y" "0 \<le> m" "m \<le> 11"
  shows "snd (month_body L y (startOfYearUtc y) (startOfNextYearUtc y) (Some (year_offset y)) m acc)
         = snd acc @ [month_item L y m]"
proof -
  have s: "dayDiffUtc (startOfYearUtc y) (Date_UTC y m 1) = Some (month_start m (DaysInYear y = 366))"
    using dayDiffUtc_days [of "DayFromYear y" "DayFromYear y + month_start m (DaysInYear y = 366)"]
    by (simp add: plain_year_jan1 [OF assms(1)] Date_UTC_month [OF assms])
  have e: "dayDiffUtc (startOfYearUtc y) (if m = 11 then startOfNextYearUtc y else Date_UTC y (m + 1) 1)
           = Some (month_end m (DaysInYear y = 366))"
  proof (cases "m = 11")
    case True
    then show ?thesis
      using dayDiffUtc_days [of "DayFromYear y" "DayFromYear y + DaysInYear y"] DaysInYear_leap [of y]
      by (simp add: plain_year_jan1 [OF assms(1)] month_end_def)
  next
    case False
    then have m1: "0 \<le> m + 1" "m + 1 \<le> 11" using assms by simp_all
    show ?thesis
      using False dayDiffUtc_days [of "DayFromYear y" "DayFromYear y + month_start (m + 1) (DaysInYear y = 366)"]
      by (simp add: plain_year_jan1 [OF assms(1)] Date_UTC_month [OF assms(1) m1] month_end_def)
  qed
  show ?thesis
    by (simp add: month_body_def Let_def s e month_item_def nadd_def nsub_def Math_floor_div_def
        Math_ceil_div_def Math_max_def)
qed

lemma upto_0_11: "[0..11::int] = [0, 1, 2, 3, 4, 5, 6, 7, 8, 9, 10, 11]"
  by (simp add: upto_rec1)

lemma monthLayout_plain_year:
  assumes "plain_year y"
  shows "monthLayout (YearHeatmap L y es) = map (month_item L y) [0..11]"
proof -
  have off: "getUTCDay (startOfYearUtc y) = Some (year_offset y)"
    by (simp add: plain_year_jan1 [OF assms] getUTCDay_def year_offset_def)
  show ?thesis
    by (simp add: YearHeatmap_def Let_def off for_loop_Some upto_0_11 month_body_plain [OF assms])
qed

lemma span_of_month_item:
  assumes "0 \<le> m" "m \<le> 11"
  shows "span_of (month_item L y m) = Some (month_span y m)"
proof -
  let ?l = "DaysInYear y = 366"
  have "month_start m ?l + 28 \<le> month_end m ?l" using assms by (rule month_start_bounds)
  then have "(year_offset y + month_start m ?l) div 7 + 1 \<le> - ((- (year_offset y + month_end m ?l)) div 7)"
    by linarith
  then show ?thesis by (simp add: span_of_def month_item_def month_span_def Let_def max_def)
qed

lemma month_spans_plain_year:
  assumes "plain_year y"
  shows "map span_of (monthLayout (YearHeatmap L y es)) = map (Some \<circ> month_span y) [0..11]"
  by (simp add: monthLayout_plain_year [OF assms] upto_0_11 span_of_month_item)

lemma floor_ceil7: "x div 7 \<le> - ((- x) div (7::int))" "- ((- x) div 7) \<le> x div (7::int) + 1"
  by linarith+

lemma month_span_next:
  assumes "0 \<le> m" "m \<le> 10"
  shows "fst (month_span y m) \<le> fst (month_span y (m + 1))"
    "fst (month_span y (m + 1)) \<le> snd (month_span y m)"
    "snd (month_span y m) \<le> fst (month_span y (m + 1)) + 1"
proof -
  let ?l = "DaysInYear y = 366"
  have e: "month_end m ?l = month_start (m + 1) ?l" using assms by (simp add: month_end_def)
  have "m \<le> 11" using assms by simp
  then have "month_start m ?l + 28 \<le> month_end m ?l" using assms(1) by (intro month_start_bounds)
  then have "month_start m ?l \<le> month_start (m + 1) ?l" using e by simp
  then show "fst (month_span y m) \<le> fst (month_span y (m + 1))"
    by (simp add: month_span_def Let_def zdiv_mono1)
  show "fst (month_span y (m + 1)) \<le> snd (month_span y m)"
    by (simp add: month_span_def Let_def e floor_ceil7 del: minus_add_distrib)
  show "snd (month_span y m) \<le> fst (month_span y (m + 1)) + 1"
    by (simp add: month_span_def Let_def e floor_ceil7 del: minus_add_distrib)
qed

lemma contiguous_Cons2:
  "contiguous (p # q # rest) = (fst p \<le> fst q \<and> fst q \<le> snd p \<and> contiguous (q # rest))"
  by (cases p; cases q) simp

lemma share_at_most_one_Cons2:
  "share_at_most_one (p # q # rest) = (snd p \<le> fst q + 1 \<and> share_at_most_one (q # rest))"
  by (cases p; cases q) simp

lemma contiguous_map_upto:
  assumes "\<And>m. i \<le> m \<Longrightarrow> m < j \<Longrightarrow> fst (f m) \<le> fst (f (m + 1)) \<and> fst (f (m + 1)) \<le> snd (f m)"
  shows "contiguous (map f [i..j])"
  using assms
proof (induction "nat (j - i)" arbitrary: i)
  case 0
  then have "[i..j] = [] \<or> [i..j] = [i]" by (cases "i = j") auto
  then show ?case by auto
next
  case (Suc k)
  then have lt: "i < j" by linarith
  have k: "k = nat (j - (i + 1))" using Suc.hyps(2) by linarith
  have l1: "[i..j] = i # [i + 1..j]" using lt by (simp add: upto_rec1)
  have l2: "[i + 1..j] = (i + 1) # [i + 1 + 1..j]" using lt by (simp add: upto_rec1)
  have "contiguous (map f [i + 1..j])" using Suc.hyps(1) [OF k] Suc.prems by simp
  then show ?case
    using Suc.prems [of i] lt unfolding l1 by (simp add: l2 contiguous_Cons2)
qed

lemma share_at_most_one_map_upto:
  assumes "\<And>m. i \<le> m \<Longrightarrow> m < j \<Longrightarrow> snd (f m) \<le> fst (f (m + 1)) + 1"
  shows "share_at_most_one (map f [i..j])"
  using assms
proof (induction "nat (j - i)" arbitrary: i)
  case 0
  then have "[i..j] = [] \<or> [i..j] = [i]" by (cases "i = j") auto
  then show ?case by auto
next
  case (Suc k)
  then have lt: "i < j" by linarith
  have k: "k = nat (j - (i + 1))" using Suc.hyps(2) by linarith
  have l1: "[i..j] = i # [i + 1..j]" using lt by (simp add: upto_rec1)
  have l2: "[i + 1..j] = (i + 1) # [i + 1 + 1..j]" using lt by (simp add: upto_rec1)
  have "share_at_most_one (map f [i + 1..j])" using Suc.hyps(1) [OF k] Suc.prems by simp
  then show ?case
    using Suc.prems [of i] lt unfolding l1 by (simp add: l2 share_at_most_one_Cons2)
qed

lemma contiguous_months: "contiguous (map (month_span y) [0..11])"
  by (rule contiguous_map_upto) (simp add: month_span_next)

lemma share_months: "share_at_most_one (map (month_span y) [0..11])"
  by (rule share_at_most_one_map_upto) (simp add: month_span_next)

lemma contiguous_covers:
  "contiguous sp \<Longrightarrow> sp \<noteq> [] \<Longrightarrow> fst (hd sp) \<le> w \<Longrightarrow> w < snd (last sp) \<Longrightarrow> covered sp w"
proof (induction sp rule: contiguous.induct)
  case (1 a b c d rest)
  show ?case
  proof (cases "w < b")
    case True
    then show ?thesis using "1.prems" by (simp add: covered_def)
  next
    case False
    then have "covered ((c, d) # rest) w" using "1.IH" "1.prems" by simp
    then show ?thesis by (simp add: covered_def)
  qed
qed (auto simp: covered_def)

lemma week_count_nonneg: "0 \<le> week_count y"
  unfolding week_count_def using WeekDay_range(1) [of "DayFromYear y * msPerDay"] DaysInYear_cases [of y]
  by (intro ceil_div7(2)) (auto simp: year_offset_def)

lemma weeks_plain_year:
  assumes "plain_year y"
  shows "map (\<lambda>wk. (index wk, days wk)) (weeks (YearHeatmap L y es)) =
           map (\<lambda>w. (w, map (cell_at y (entriesByKey es) (year_offset y) (DaysInYear y)) [w * 7..w * 7 + 6]))
             [0..week_count y - 1]"
proof -
  have td: "dayDiffUtc (startOfYearUtc y) (startOfNextYearUtc y) = Some (DaysInYear y)"
    by (simp add: plain_year_jan1 [OF assms] dayDiffUtc_days)
  have off: "getUTCDay (startOfYearUtc y) = Some (year_offset y)"
    by (simp add: plain_year_jan1 [OF assms] getUTCDay_def year_offset_def)
  have cnt: "Math_ceil_div (nadd (Some (year_offset y)) (Some (DaysInYear y))) 7 = Some (week_count y)"
    by (simp add: Math_ceil_div_def nadd_def week_count_def)
  show ?thesis
    by (simp add: YearHeatmap_def Let_def td off cnt for_loop_Some [of 0 "week_count y"]
        week_body_push fold_push comp_def week_days)
qed

lemma week_has_day:
  assumes "0 \<le> w" "w < week_count y"
  shows "list_ex (\<lambda>c. c \<noteq> None) (map (cell_at y byKey (year_offset y) (DaysInYear y)) [w * 7..w * 7 + 6])"
proof -
  let ?i = "max (w * 7) (year_offset y)"
  have off: "0 \<le> year_offset y" "year_offset y < 7" unfolding year_offset_def by (rule WeekDay_range)+
  have td: "1 \<le> DaysInYear y" using DaysInYear_cases [of y] by auto
  have "w * 7 < year_offset y + DaysInYear y" using assms(2) unfolding week_count_def by linarith
  then have "cell_at y byKey (year_offset y) (DaysInYear y) ?i \<noteq> None"
    using off td by (simp add: cell_at_def max_def)
  moreover have "?i \<in> set [w * 7..w * 7 + 6]" using off assms(1) by (simp add: max_def)
  ultimately have "\<exists>i \<in> set [w * 7..w * 7 + 6]. cell_at y byKey (year_offset y) (DaysInYear y) i \<noteq> None"
    by blast
  then show ?thesis unfolding list_ex_iff by simp
qed

lemma year_search_correct:
  "DayFromYear y0 \<le> d \<Longrightarrow>
   DayFromYear (year_search d y0) \<le> d \<and> d < DayFromYear (year_search d y0 + 1)"
proof (induction d y0 rule: year_search.induct)
  case (1 d y)
  show ?case
  proof (cases "DayFromYear (y + 1) \<le> d")
    case True
    then show ?thesis using "1.IH" by (simp add: year_search.simps [of d y])
  next
    case False
    then show ?thesis using "1.prems" by (simp add: year_search.simps [of d y])
  qed
qed

lemma DayFromYear_upper: "0 \<le> k \<Longrightarrow> DayFromYear (1970 + k) \<le> 366 * k"
proof (induction k rule: int_ge_induct)
  case base
  show ?case by (simp add: DayFromYear_def)
next
  case (step i)
  have "DayFromYear (1970 + (i + 1)) = DayFromYear (1970 + i) + DaysInYear (1970 + i)"
    using DayFromYear_next [of "1970 + i"] by (simp add: add.assoc)
  then show ?case using step.IH DaysInYear_cases [of "1970 + i"] by auto
qed

lemma DayFromYear_lower: "0 \<le> k \<Longrightarrow> DayFromYear (1970 - k) \<le> - 365 * k"
proof (induction k rule: int_ge_induct)
  case base
  show ?case by (simp add: DayFromYear_def)
next
  case (step i)
  have "DayFromYear (1970 - i) = DayFromYear (1970 - (i + 1)) + DaysInYear (1970 - (i + 1))"
    using DayFromYear_next [of "1970 - (i + 1)"] by simp
  then show ?case using step.IH DaysInYear_cases [of "1970 - (i + 1)"] by auto
qed

lemma year_search_start: "DayFromYear (1970 + (if 0 \<le> d then d div 366 else d div 365)) \<le> d"
proof (cases "0 \<le> d")
  case True
  then have "0 \<le> d div 366" by simp
  then have "DayFromYear (1970 + d div 366) \<le> 366 * (d div 366)" by (rule DayFromYear_upper)
  also have "\<dots> \<le> d" by simp
  finally show ?thesis using True by simp
next
  case False
  then have "0 \<le> - (d div 365)" by simp
  then have "DayFromYear (1970 - (- (d div 365))) \<le> - 365 * (- (d div 365))" by (rule DayFromYear_lower)
  also have "\<dots> = 365 * (d div 365)" by simp
  also have "\<dots> \<le> d" by simp
  finally show ?thesis using False by simp
qed

lemma YearFromDay_bounds:
  "DayFromYear (YearFromDay d) \<le> d" "d < DayFromYear (YearFromDay d + 1)"
  using year_search_correct [OF year_search_start [of d]] by (simp_all add: YearFromDay_def)

lemma YearFromDay_eq:
  assumes "DayFromYear y \<le> d" "d < DayFromYear (y + 1)"
  shows "YearFromDay d = y"
proof (rule ccontr)
  assume ne: "YearFromDay d \<noteq> y"
  show False
  proof (cases "YearFromDay d < y")
    case True
    then have "DayFromYear (YearFromDay d + 1) \<le> DayFromYear y" by (intro DayFromYear_mono) simp
    then show False using YearFromDay_bounds(2) [of d] assms(1) by simp
  next
    case False
    then have "DayFromYear (y + 1) \<le> DayFromYear (YearFromDay d)" using ne by (intro DayFromYear_mono) simp
    then show False using YearFromDay_bounds(1) [of d] assms(2) by simp
  qed
qed

text \<open>The calendar fields of day \<open>k\<close> (counted from 0) of year \<open>y\<close>.\<close>

lemma fields_of_day:
  assumes "0 \<le> k" "k < DaysInYear y"
  shows "YearFromTime ((DayFromYear y + k) * msPerDay) = y"
    and "DayWithinYear ((DayFromYear y + k) * msPerDay) = k"
    and "InLeapYear ((DayFromYear y + k) * msPerDay) = (DaysInYear y = 366)"
proof -
  show y: "YearFromTime ((DayFromYear y + k) * msPerDay) = y"
    unfolding YearFromTime_def Day_of_days using assms
    by (intro YearFromDay_eq) (simp_all add: DayFromYear_next)
  show "DayWithinYear ((DayFromYear y + k) * msPerDay) = k"
    by (simp add: DayWithinYear_def y Day_of_days)
  show "InLeapYear ((DayFromYear y + k) * msPerDay) = (DaysInYear y = 366)"
    by (simp add: InLeapYear_def y)
qed


lemma MonthFromTime_of_day:
  assumes "0 \<le> k" "k < DaysInYear y"
  shows "MonthFromTime ((DayFromYear y + k) * msPerDay) =
     (let l = leap_days (DaysInYear y = 366) in
      if k < 31 then 0
      else if k < 59 + l then 1
      else if k < 90 + l then 2
      else if k < 120 + l then 3
      else if k < 151 + l then 4
      else if k < 181 + l then 5
      else if k < 212 + l then 6
      else if k < 243 + l then 7
      else if k < 273 + l then 8
      else if k < 304 + l then 9
      else if k < 334 + l then 10
      else 11)"
  by (simp add: MonthFromTime_def fields_of_day [OF assms] Let_def)

lemma month_of_day:
  assumes "0 \<le> j" "j \<le> 11" "month_start j (DaysInYear y = 366) \<le> k" "k < month_end j (DaysInYear y = 366)"
  shows "MonthFromTime ((DayFromYear y + k) * msPerDay) = j"
    and "DateFromTime ((DayFromYear y + k) * msPerDay) = k - month_start j (DaysInYear y = 366) + 1"
proof -
  let ?l = "DaysInYear y = 366"
  define l where "l = leap_days ?l"
  have l: "0 \<le> l" "l \<le> 1" by (simp_all add: l_def leap_days_def)
  have k: "0 \<le> k" "k < DaysInYear y"
    using month_start_bounds [OF assms(1,2), of ?l] assms(3,4) DaysInYear_leap [of y] by auto
  have lo: "month_start j ?l \<le> k" and hi: "k < month_end j ?l" using assms by simp_all
  have m: "MonthFromTime ((DayFromYear y + k) * msPerDay) = j"
    unfolding MonthFromTime_of_day [OF k] Let_def l_def [symmetric]
    using month_cases [OF assms(1,2)]
    by (elim disjE) (insert lo hi l, simp_all add: month_start_def month_end_def l_def [symmetric])
  show "MonthFromTime ((DayFromYear y + k) * msPerDay) = j" by (rule m)
  show "DateFromTime ((DayFromYear y + k) * msPerDay) = k - month_start j ?l + 1"
    by (simp add: DateFromTime_def m fields_of_day [OF k])
qed

lemma string_of_nat_small: "n < 10 \<Longrightarrow> string_of_nat n = [digit_char n]"
  by (simp add: string_of_nat.simps)

lemma string_of_nat_two:
  assumes "10 \<le> n" "n < 100"
  shows "string_of_nat n = [digit_char (n div 10), digit_char (n mod 10)]"
proof -
  have "n div 10 < 10" using assms by simp
  then show ?thesis using assms(1) by (simp add: string_of_nat.simps [of n] string_of_nat_small)
qed

lemma pad2:
  assumes "0 \<le> i" "i < 100"
  shows "padStart 2 CHR ''0'' (String_number (Some i)) = [digit_char (nat i div 10), digit_char (nat i mod 10)]"
proof (cases "i < 10")
  case True
  then have "nat i < 10" by simp
  then have "nat i div 10 = 0" "nat i mod 10 = nat i" by simp_all
  then show ?thesis
    using assms(1) \<open>nat i < 10\<close>
    by (simp add: padStart_def String_number_def string_of_nat_small digit_char_def)
next
  case False
  then have "10 \<le> nat i" "nat i < 100" using assms by simp_all
  then show ?thesis using assms(1) by (simp add: padStart_def String_number_def string_of_nat_two)
qed

lemma digit_char_inj: "a < 10 \<Longrightarrow> b < 10 \<Longrightarrow> digit_char a = digit_char b \<Longrightarrow> a = b"
proof -
  assume a: "a < 10" and b: "b < 10" and e: "digit_char a = digit_char b"
  have "distinct ''0123456789''" by simp
  moreover have "a < length ''0123456789''" "b < length ''0123456789''" using a b by simp_all
  ultimately show "a = b" using e unfolding digit_char_def by (simp only: nth_eq_iff_index_eq)
qed

lemma pad2_inj:
  assumes "0 \<le> i" "i < 100" "0 \<le> j" "j < 100"
    "padStart 2 CHR ''0'' (String_number (Some i)) = padStart 2 CHR ''0'' (String_number (Some j))"
  shows "i = j"
proof -
  have e: "digit_char (nat i div 10) = digit_char (nat j div 10)" "digit_char (nat i mod 10) = digit_char (nat j mod 10)"
    using assms(5) unfolding pad2 [OF assms(1,2)] pad2 [OF assms(3,4)] by simp_all
  have "nat i div 10 < 10" "nat j div 10 < 10" using assms(2,4) by simp_all
  then have q: "nat i div 10 = nat j div 10" using e(1) by (rule digit_char_inj)
  have "nat i mod 10 < 10" "nat j mod 10 < 10" by simp_all
  then have "nat i mod 10 = nat j mod 10" using e(2) by (rule digit_char_inj)
  with q have "nat i div 10 = nat j div 10" "nat i mod 10 = nat j mod 10" by simp_all
  then have "nat i = nat j" by (metis div_mult_mod_eq)
  then show ?thesis using assms(1,3) by simp
qed

lemma calendar_key_inj:
  assumes "0 \<le> m" "m < 100" "0 \<le> m'" "m' < 100" "0 \<le> d" "d < 100" "0 \<le> d'" "d' < 100"
    "calendar_key y m d = calendar_key y m' d'"
  shows "m = m' \<and> d = d'"
proof -
  let ?p = "\<lambda>i. padStart 2 CHR ''0'' (String_number (Some i))"
  have len: "length (?p m) = length (?p m')" by (simp add: pad2 assms)
  have "?p m @ ''-'' @ ?p d = ?p m' @ ''-'' @ ?p d'"
    using assms(9) unfolding calendar_key_def by simp
  then have "?p m = ?p m'" "?p d = ?p d'" using len by simp_all
  then show ?thesis using assms(1-8) by (auto dest: pad2_inj)
qed

lemma leap_year_DaysInYear: "leap_year y \<longleftrightarrow> DaysInYear y = 366"
  by (auto simp: leap_year_def DaysInYear_def)

lemma days_in_month_eq:
  assumes "1 \<le> m" "m \<le> 12"
  shows "days_in_month y m =
           month_end (m - 1) (DaysInYear y = 366) - month_start (m - 1) (DaysInYear y = 366)"
proof -
  have "0 \<le> m - 1" "m - 1 \<le> 11" using assms by simp_all
  then have "m - 1 = 0 \<or> m - 1 = 1 \<or> m - 1 = 2 \<or> m - 1 = 3 \<or> m - 1 = 4 \<or> m - 1 = 5 \<or> m - 1 = 6 \<or> m - 1 = 7
      \<or> m - 1 = 8 \<or> m - 1 = 9 \<or> m - 1 = 10 \<or> m - 1 = 11" by (rule month_cases)
  then have "m = 1 \<or> m = 2 \<or> m = 3 \<or> m = 4 \<or> m = 5 \<or> m = 6 \<or> m = 7 \<or> m = 8 \<or> m = 9 \<or> m = 10
      \<or> m = 11 \<or> m = 12" by simp
  then show ?thesis
    by (elim disjE)
       (simp_all add: days_in_month_def month_end_def month_start_def leap_days_def leap_year_DaysInYear)
qed

lemma day_in_some_month:
  assumes "0 \<le> k" "k < DaysInYear y"
  shows "\<exists>j. 0 \<le> j \<and> j \<le> 11 \<and> month_start j (DaysInYear y = 366) \<le> k \<and> k < month_end j (DaysInYear y = 366)"
proof -
  define l where "l = leap_days (DaysInYear y = 366)"
  have l: "0 \<le> l" "l \<le> 1" by (simp_all add: l_def leap_days_def)
  have td: "k < 365 + l" using assms(2) DaysInYear_leap [of y] by (simp add: l_def)
  let ?P = "\<lambda>j. 0 \<le> j \<and> j \<le> 11 \<and> month_start j (DaysInYear y = 366) \<le> k \<and> k < month_end j (DaysInYear y = 366)"
  consider "k < 31" | "31 \<le> k \<and> k < 59 + l" | "59 + l \<le> k \<and> k < 90 + l" | "90 + l \<le> k \<and> k < 120 + l"
    | "120 + l \<le> k \<and> k < 151 + l" | "151 + l \<le> k \<and> k < 181 + l" | "181 + l \<le> k \<and> k < 212 + l"
    | "212 + l \<le> k \<and> k < 243 + l" | "243 + l \<le> k \<and> k < 273 + l" | "273 + l \<le> k \<and> k < 304 + l"
    | "304 + l \<le> k \<and> k < 334 + l" | "334 + l \<le> k"
    by (meson not_less)
  then show ?thesis
  proof cases
    case 1 then have "?P 0" using assms(1) by (simp add: month_start_def month_end_def) then show ?thesis ..
  next
    case 2 then have "?P 1" by (simp add: month_start_def month_end_def l_def) then show ?thesis ..
  next
    case 3 then have "?P 2" by (simp add: month_start_def month_end_def l_def) then show ?thesis ..
  next
    case 4 then have "?P 3" by (simp add: month_start_def month_end_def l_def) then show ?thesis ..
  next
    case 5 then have "?P 4" by (simp add: month_start_def month_end_def l_def) then show ?thesis ..
  next
    case 6 then have "?P 5" by (simp add: month_start_def month_end_def l_def) then show ?thesis ..
  next
    case 7 then have "?P 6" by (simp add: month_start_def month_end_def l_def) then show ?thesis ..
  next
    case 8 then have "?P 7" by (simp add: month_start_def month_end_def l_def) then show ?thesis ..
  next
    case 9 then have "?P 8" by (simp add: month_start_def month_end_def l_def) then show ?thesis ..
  next
    case 10 then have "?P 9" by (simp add: month_start_def month_end_def l_def) then show ?thesis ..
  next
    case 11 then have "?P 10" by (simp add: month_start_def month_end_def l_def) then show ?thesis ..
  next
    case 12 then have "?P 11" using td by (simp add: month_start_def month_end_def l_def) then show ?thesis ..
  qed
qed

text \<open>The key of the slot of day \<open>k\<close> of a plain year.\<close>

lemma toDateKey_day:
  assumes "plain_year y" "0 \<le> j" "j \<le> 11"
    "month_start j (DaysInYear y = 366) \<le> k" "k < month_end j (DaysInYear y = 366)"
  shows "toDateKey (Date_UTC y 0 (1 + k)) = calendar_key y (j + 1) (k - month_start j (DaysInYear y = 366) + 1)"
proof -
  have a: "\<not> (0 \<le> y \<and> y \<le> 99)" "- 271820 \<le> y" "y \<le> 275759"
    using assms(1) by (auto simp: plain_year_def)
  have k: "0 \<le> k" "k \<le> DaysInYear y"
    using month_start_bounds [OF assms(2,3), of "DaysInYear y = 366"] assms(4,5) DaysInYear_leap [of y] by auto
  have k': "k < DaysInYear y"
    using month_start_bounds [OF assms(2,3), of "DaysInYear y = 366"] assms(4,5) DaysInYear_leap [of y] by auto
  show ?thesis
    by (simp add: Date_UTC_day [OF a k] toDateKey_def getUTCFullYear_def getUTCMonth_def getUTCDate_def
        nadd_def fields_of_day [OF k(1) k'] month_of_day [OF assms(2-5)] calendar_key_def Let_def)
qed

lemma Date_UTC_month_day:
  assumes "plain_year y" "0 \<le> j" "j \<le> 11"
  shows "Date_UTC y j d = Date_UTC y 0 (1 + (month_start j (DaysInYear y = 366) + d - 1))"
proof -
  have a: "\<not> (0 \<le> y \<and> y \<le> 99)" using assms(1) by (auto simp: plain_year_def)
  have dm: "j div 12 = 0" "j mod 12 = j" using assms(2,3) by simp_all
  show ?thesis
    by (simp add: Date_UTC_def MakeDay_def dm month_start_def [of 0] Let_def MakeFullYear_plain [OF a]
        add.assoc)
qed

lemma filter_eq_upto:
  assumes "i \<le> k" "k \<le> j"
  shows "filter (\<lambda>x. x = k) [i..j] = [k]"
proof -
  have "[i..j] = [i..k - 1] @ k # [k + 1..j]" using assms by (rule upto_split3)
  moreover have "filter (\<lambda>x. x = k) [i..k - 1] = []" by (auto simp: filter_empty_conv)
  moreover have "filter (\<lambda>x. x = k) [k + 1..j] = []" by (auto simp: filter_empty_conv)
  ultimately show ?thesis by simp
qed

lemma entriesByKey_single: "entriesByKey [E] = [dateKey E \<mapsto> E]"
  by (simp add: entriesByKey_def)

lemma takeWhile_prefix: "(\<And>x. x \<in> set xs \<Longrightarrow> P x) \<Longrightarrow> \<not> P y \<Longrightarrow> takeWhile P (xs @ y # ys) = xs"
  by (simp add: takeWhile_append2)

lemma month_length_le:
  assumes "0 \<le> m" "m \<le> 11"
  shows "month_end m leap \<le> month_start m leap + 31"
  using month_cases [OF assms]
  by (auto simp: month_start_def month_end_def leap_days_def Let_def)

lemma leading_empty_plain_year:
  assumes "plain_year y"
  shows "int (leading_empty (YearHeatmap L y es)) = year_offset y"
proof -
  let ?c = "cell_at y (entriesByKey es) (year_offset y) (DaysInYear y)"
  have off: "0 \<le> year_offset y" "year_offset y < 7" unfolding year_offset_def by (rule WeekDay_range)+
  have td: "DaysInYear y = 365 \<or> DaysInYear y = 366" by (rule DaysInYear_cases)
  have wc: "0 < week_count y" unfolding week_count_def using off td by linarith
  then have "[0..week_count y - 1] = 0 # [1..week_count y - 1]" by (simp add: upto_rec1)
  then have "map (\<lambda>wk. (index wk, days wk)) (weeks (YearHeatmap L y es)) =
      (0, map ?c [0..6]) # map (\<lambda>w. (w, map ?c [w * 7..w * 7 + 6])) [1..week_count y - 1]"
    unfolding weeks_plain_year [OF assms] by simp
  then obtain wk rest where w: "weeks (YearHeatmap L y es) = wk # rest" "days wk = map ?c [0..6]"
    by (auto simp: map_eq_Cons_conv)
  have sp: "[0..6] = [0..year_offset y - 1] @ year_offset y # [year_offset y + 1..6]"
    using off by (intro upto_split3) simp_all
  have none: "x = None" if "x \<in> set (map ?c [0..year_offset y - 1])" for x
    using that by (auto simp: cell_at_def)
  have some: "?c (year_offset y) \<noteq> None" using td by (auto simp: cell_at_def)
  have "takeWhile (\<lambda>s. s = None) (days wk) = map ?c [0..year_offset y - 1]"
    unfolding w(2) sp map_append list.map using none some by (rule takeWhile_prefix)
  then show ?thesis using off by (simp add: leading_empty_def w(1))
qed

lemma weekday_month_start:
  assumes "plain_year y" "0 \<le> m" "m \<le> 11"
  shows "getUTCDay (Date_UTC y m 1) = Some ((year_offset y + month_start m (DaysInYear y = 366)) mod 7)"
proof -
  have "(DayFromYear y + month_start m (DaysInYear y = 366) + 4) mod 7 =
        ((DayFromYear y + 4) mod 7 + month_start m (DaysInYear y = 366)) mod 7"
    by presburger
  then show ?thesis
    by (simp add: Date_UTC_month [OF assms] getUTCDay_def WeekDay_def Day_of_days year_offset_def)
qed

lemma floor_ceil_boundary:
  "f div 7 = (if f mod 7 = 0 then - ((- f) div 7) else - ((- f) div (7::int)) - 1)"
  by presburger

lemma boundary_months:
  assumes "plain_year y"
  shows "boundary_shared y (map (month_span y) [0..11])"
proof -
  have "fst (map (month_span y) [0..11] ! Suc i) =
          (if getUTCDay (Date_UTC y (int i + 1) 1) = Some 0 then snd (map (month_span y) [0..11] ! i)
           else snd (map (month_span y) [0..11] ! i) - 1)" if "i < 11" for i
  proof -
    let ?l = "DaysInYear y = 366"
    let ?f = "year_offset y + month_start (int i + 1) ?l"
    have n: "map (month_span y) [0..11] ! Suc i = month_span y (int i + 1)"
      "map (month_span y) [0..11] ! i = month_span y (int i)"
      using that by (simp_all add: nth_upto add.commute)
    have e: "month_end (int i) ?l = month_start (int i + 1) ?l" using that by (simp add: month_end_def)
    have w: "getUTCDay (Date_UTC y (int i + 1) 1) = Some (?f mod 7)"
      using that by (intro weekday_month_start [OF assms]) simp_all
    have a: "fst (month_span y (int i + 1)) = ?f div 7" by (simp add: month_span_def Let_def)
    have b: "snd (month_span y (int i)) = - ((- ?f) div 7)" by (simp add: month_span_def Let_def e)
    show ?thesis unfolding n w a b using floor_ceil_boundary [of ?f] by simp
  qed
  then show ?thesis by (simp add: boundary_shared_def list_all_iff)
qed

section \<open>Normalisation and the merge step: auxiliary facts\<close>

lemma bind_err_simps [simp]: "bind_err (Inr v) f = f v" "bind_err (Inl e) f = Inl e"
  by (simp_all add: bind_err_def)

lemma bind_err_eq_Inr: "bind_err r f = Inr y \<longleftrightarrow> (\<exists>v. r = Inr v \<and> f v = Inr y)"
  by (cases r) simp_all

lemma get_prop_object:
  assumes "truthy raw" "typeof raw = ''object''"
  shows "get_prop raw name = Inr (the_prop raw name)"
  using assms by (cases raw) (simp_all add: get_prop_def the_prop_def truthy_def typeof_def)

lemma typeof_boolean: "typeof v = ''boolean'' \<longleftrightarrow> (\<exists>b. v = JBool b)"
  by (cases v) (simp_all add: typeof_def)

lemma normalizeEntry_object:
  assumes "truthy raw" "typeof raw = ''object''"
  shows "normalizeEntry P raw =
     bind_err (date_key_of P raw) (\<lambda>k.
       if \<not> isValidDateKey k \<or> typeof (the_prop raw ''isSick'') \<noteq> ''boolean'' then Inr None
       else bind_err (severity_of P raw) (\<lambda>sv.
         Inr (Some \<lparr>entry_id = js_or (js_or (the_prop raw ''id'') (the_prop raw ''_id'')) JNull,
                    date = the_prop raw ''date'',
                    dateKey = (case k of JStr s \<Rightarrow> s | _ \<Rightarrow> []),
                    isSick = (the_prop raw ''isSick'' = JBool True),
                    severity = sv\<rparr>)))"
proof -
  have g: "get_prop raw name = Inr (the_prop raw name)" for name
    using assms by (rule get_prop_object)
  show ?thesis
    unfolding normalizeEntry_def g date_key_of_def severity_of_def Number_isNaN_def getTime_def
    using assms by (simp cong: if_cong)
qed

lemma normalizeEntry_not_object:
  "\<not> truthy raw \<or> typeof raw \<noteq> ''object'' \<Longrightarrow> normalizeEntry P raw = Inr None"
  by (auto simp: normalizeEntry_def)

lemma normalizeEntry_Some:
  assumes "normalizeEntry P raw = Inr (Some e)"
  shows "truthy raw" "typeof raw = ''object''"
    and "\<exists>k. date_key_of P raw = Inr (JStr k) \<and> date_key_pattern k \<and> dateKey e = k"
    and "\<exists>b. the_prop raw ''isSick'' = JBool b \<and> isSick e = b"
    and "severity_of P raw = Inr (severity e)"
    and "date e = the_prop raw ''date''"
    and "entry_id e = js_or (js_or (the_prop raw ''id'') (the_prop raw ''_id'')) JNull"
proof -
  show t: "truthy raw" "typeof raw = ''object''"
    using assms normalizeEntry_not_object [of raw P] by auto
  obtain k where k: "date_key_of P raw = Inr k"
    using assms unfolding normalizeEntry_object [OF t] bind_err_eq_Inr by blast
  have v: "isValidDateKey k" "typeof (the_prop raw ''isSick'') = ''boolean''"
    using assms unfolding normalizeEntry_object [OF t] k by (auto split: if_splits)
  obtain sv where sv: "severity_of P raw = Inr sv"
    using assms v unfolding normalizeEntry_object [OF t] k by (auto simp: bind_err_eq_Inr)
  have e: "e = \<lparr>entry_id = js_or (js_or (the_prop raw ''id'') (the_prop raw ''_id'')) JNull,
                    date = the_prop raw ''date'',
                    dateKey = (case k of JStr s \<Rightarrow> s | _ \<Rightarrow> []),
                    isSick = (the_prop raw ''isSick'' = JBool True),
                    severity = sv\<rparr>"
    using assms v unfolding normalizeEntry_object [OF t] k sv by simp
  obtain s where s: "k = JStr s" "date_key_pattern s"
    using v(1) by (cases k) (simp_all add: isValidDateKey_def)
  show "\<exists>k. date_key_of P raw = Inr (JStr k) \<and> date_key_pattern k \<and> dateKey e = k"
    using k s e by simp
  show "\<exists>b. the_prop raw ''isSick'' = JBool b \<and> isSick e = b"
    using v(2) e by (auto simp: typeof_boolean)
  show "severity_of P raw = Inr (severity e)" using sv e by simp
  show "date e = the_prop raw ''date''" using e by simp
  show "entry_id e = js_or (js_or (the_prop raw ''id'') (the_prop raw ''_id'')) JNull" using e by simp
qed

lemma normalizeEntry_dated:
  assumes "truthy raw" "typeof raw = ''object''" "isValidDateKey (the_prop raw ''dateKey'')"
    and "the_prop raw ''isSick'' = JBool b"
  shows "normalizeEntry P raw =
     bind_err (severity_of P raw) (\<lambda>sv.
       Inr (Some \<lparr>entry_id = js_or (js_or (the_prop raw ''id'') (the_prop raw ''_id'')) JNull,
                  date = the_prop raw ''date'',
                  dateKey = (case the_prop raw ''dateKey'' of JStr s \<Rightarrow> s | _ \<Rightarrow> []),
                  isSick = b,
                  severity = sv\<rparr>))"
proof -
  have k: "date_key_of P raw = Inr (the_prop raw ''dateKey'')"
    using assms(3) by (simp add: date_key_of_def)
  show ?thesis
    unfolding normalizeEntry_object [OF assms(1,2)] k
    using assms(3,4) by (simp add: typeof_def)
qed

lemma ToPrimitive_primitive: "is_primitive v \<Longrightarrow> ToPrimitive P v = Inr v"
  by (cases v) (simp_all add: ToPrimitive_def is_primitive_def)

lemma Number_number: "Number P (JNum n) = Inr n"
  by (simp add: Number_def ToPrimitive_def ToNumber_primitive_def)

lemma Number_primitive: "is_primitive v \<Longrightarrow> Number P v = Inr (ToNumber_primitive P v)"
  by (simp add: Number_def ToPrimitive_primitive)

lemma the_prop_object: "the_prop (JObj ps) name = (case map_of ps name of Some x \<Rightarrow> x | None \<Rightarrow> JUndefined)"
  by (simp add: the_prop_def get_prop_def)

lemma object_guard: "truthy (JObj ps)" "typeof (JObj ps) = ''object''"
  by (simp_all add: truthy_def typeof_def)

lemma raw_sick_entry:
  "normalizeEntry P (raw_sick v) =
     bind_err (Number P (js_or v (JNum (Fin 1)))) (\<lambda>n.
       Inr (Some \<lparr>entry_id = JNull, date = JUndefined, dateKey = ''2024-03-05'', isSick = True,
                  severity = Some n\<rparr>))"
  unfolding raw_sick_def normalizeEntry_object [OF object_guard]
  by (cases "Number P (js_or v (JNum (Fin 1)))")
     (simp_all add: date_key_of_def severity_of_def the_prop_object isValidDateKey_def is_digit_def
      typeof_def js_or_def truthy_def)

lemma raw_healthy_entry:
  "normalizeEntry P (raw_healthy v) =
     Inr (Some \<lparr>entry_id = JNull, date = JUndefined, dateKey = ''2024-03-05'', isSick = False,
                severity = None\<rparr>)"
  unfolding raw_healthy_def normalizeEntry_object [OF object_guard]
  by (simp add: date_key_of_def severity_of_def the_prop_object isValidDateKey_def is_digit_def
      typeof_def js_or_def truthy_def)

lemma Number_bad_object: "Number P (JObj [(''toString'', JNum (Fin 1))]) = Inl TypeError"
  by (simp add: Number_def ToPrimitive_def)

lemma new_Date_undefined: "new_Date P JUndefined = Inr None"
  by (simp add: new_Date_def ToPrimitive_def ToNumber_primitive_def time_of_number_def)

lemma insert_sorted_set: "insert_sorted cmp x rs = Inr ys \<Longrightarrow> set ys = insert x (set rs)"
proof (induction rs arbitrary: ys)
  case Nil
  then show ?case by auto
next
  case (Cons r rs)
  then show ?case
    by (auto simp: bind_err_eq_Inr split: if_splits)
qed

lemma sort_loop_set: "sort_loop cmp rs xs = Inr ys \<Longrightarrow> set ys = set rs \<union> set xs"
proof (induction xs arbitrary: rs ys)
  case Nil
  then show ?case by auto
next
  case (Cons x xs)
  then obtain rs' where r: "insert_sorted cmp x rs = Inr rs'" "sort_loop cmp rs' xs = Inr ys"
    by (auto simp: bind_err_eq_Inr)
  show ?case using Cons.IH [OF r(2)] insert_sorted_set [OF r(1)] by auto
qed

lemma merge_saved_set:
  "merge_saved P prev saved = Inr merged \<Longrightarrow>
   set merged = insert saved {e \<in> set prev. dateKey e \<noteq> dateKey saved}"
  unfolding merge_saved_def js_sort_def by (drule sort_loop_set) auto

section \<open>The sort and the merge step: auxiliary facts\<close>

lemma insert_sorted_mset: "insert_sorted cmp x rs = Inr ys \<Longrightarrow> mset ys = add_mset x (mset rs)"
proof (induction rs arbitrary: ys)
  case Nil
  then show ?case by auto
next
  case (Cons r rs)
  then show ?case by (auto simp: bind_err_eq_Inr split: if_splits)
qed

lemma sort_loop_mset: "sort_loop cmp rs xs = Inr ys \<Longrightarrow> mset ys = mset rs + mset xs"
proof (induction xs arbitrary: rs ys)
  case Nil
  then show ?case by auto
next
  case (Cons x xs)
  then obtain rs' where r: "insert_sorted cmp x rs = Inr rs'" "sort_loop cmp rs' xs = Inr ys"
    by (auto simp: bind_err_eq_Inr)
  show ?case using Cons.IH [OF r(2)] insert_sorted_mset [OF r(1)] by simp
qed

lemma merge_saved_mset:
  "merge_saved P prev saved = Inr merged \<Longrightarrow>
   mset merged = add_mset saved (mset (filter (\<lambda>item. dateKey item \<noteq> dateKey saved) prev))"
  unfolding merge_saved_def js_sort_def by (drule sort_loop_mset) simp

lemma filter_mset_other_key:
  "filter_mset (\<lambda>e. f e = k) (mset (filter (\<lambda>e. f e \<noteq> k) xs)) = {#}"
  by (induction xs) auto

lemma merge_saved_one_key:
  assumes "merge_saved P prev saved = Inr merged"
  shows "length (filter (\<lambda>e. dateKey e = dateKey saved) merged) = 1"
proof -
  have "length (filter (\<lambda>e. dateKey e = dateKey saved) merged)
        = size (filter_mset (\<lambda>e. dateKey e = dateKey saved) (mset merged))"
    by (metis mset_filter size_mset)
  also have "\<dots> = 1"
    unfolding merge_saved_mset [OF assms] by (simp add: filter_mset_other_key)
  finally show ?thesis .
qed

text \<open>The sort with a comparator that subtracts integer keys.\<close>

lemma insert_sorted_total:
  assumes "\<And>r. r \<in> set rs \<Longrightarrow> cmp r x = Inr (Some (t r - t x))"
    and "sorted_wrt (\<lambda>a b. t b \<le> t a) rs"
  shows "\<exists>ys. insert_sorted cmp x rs = Inr ys \<and> sorted_wrt (\<lambda>a b. t b \<le> t a) ys \<and>
              set ys = insert x (set rs)"
  using assms
proof (induction rs)
  case Nil
  then show ?case by simp
next
  case (Cons r rs)
  have c: "cmp r x = Inr (Some (t r - t x))" using Cons.prems(1) by simp
  show ?case
  proof (cases "t x < t r")
    case True
    obtain ys where ys: "insert_sorted cmp x rs = Inr ys" "sorted_wrt (\<lambda>a b. t b \<le> t a) ys"
      "set ys = insert x (set rs)"
      using Cons.IH Cons.prems by auto
    have "sorted_wrt (\<lambda>a b. t b \<le> t a) (r # ys)"
      using ys(2,3) Cons.prems(2) True by auto
    then show ?thesis using True c ys by (auto simp: nlt_def)
  next
    case False
    then have "sorted_wrt (\<lambda>a b. t b \<le> t a) (x # r # rs)"
      using Cons.prems(2) by auto
    then show ?thesis using False c by (auto simp: nlt_def)
  qed
qed

lemma sort_loop_total:
  assumes "\<And>a b. a \<in> set rs \<union> set xs \<Longrightarrow> b \<in> set rs \<union> set xs \<Longrightarrow> cmp a b = Inr (Some (t a - t b))"
    and "sorted_wrt (\<lambda>a b. t b \<le> t a) rs"
  shows "\<exists>ys. sort_loop cmp rs xs = Inr ys \<and> sorted_wrt (\<lambda>a b. t a \<le> t b) ys"
  using assms
proof (induction xs arbitrary: rs)
  case Nil
  have "sorted_wrt (\<lambda>a b. t a \<le> t b) (rev rs)"
    using Nil.prems(2) by (simp add: sorted_wrt_rev)
  then show ?case by simp
next
  case (Cons x xs)
  obtain rs' where r: "insert_sorted cmp x rs = Inr rs'" "sorted_wrt (\<lambda>a b. t b \<le> t a) rs'"
    "set rs' = insert x (set rs)"
    using insert_sorted_total [of rs cmp x t] Cons.prems by auto
  have "\<exists>ys. sort_loop cmp rs' xs = Inr ys \<and> sorted_wrt (\<lambda>a b. t a \<le> t b) ys"
    using Cons.prems(1) r(2,3) by (intro Cons.IH) auto
  then show ?case using r(1) by simp
qed

lemma parse_2024_06_01: "iso_parse ''2024-06-01T00:00:00.000Z'' = Some 1717200000000"
  by code_simp

lemma parse_2024_06_10: "iso_parse ''2024-06-10T00:00:00.000Z'' = Some 1717977600000"
  by code_simp

lemma parse_2024_01_05: "iso_parse ''2024-01-05T00:00:00.000Z'' = Some 1704412800000"
  by code_simp

lemma new_Date_string: "new_Date P (JStr s) = Inr (Option.bind (Date_parse P s) TimeClip)"
  by (simp add: new_Date_def ToPrimitive_def)

lemma new_Date_test:
  "new_Date test_platform (JStr ''2024-06-01T00:00:00.000Z'') = Inr (Some 1717200000000)"
  "new_Date test_platform (JStr ''2024-06-10T00:00:00.000Z'') = Inr (Some 1717977600000)"
  "new_Date test_platform (JStr ''2024-01-05T00:00:00.000Z'') = Inr (Some 1704412800000)"
  by (simp_all add: new_Date_string test_platform_def parse_2024_06_01 parse_2024_06_10 parse_2024_01_05
      TimeClip_def)


lemma has_valid_date_time: "has_valid_date P e \<Longrightarrow> new_Date P (date e) = Inr (Some (time_of P e))"
  by (auto simp: has_valid_date_def time_of_def split: sum.splits option.splits)

lemma date_cmp_valid:
  "has_valid_date P a \<Longrightarrow> has_valid_date P b \<Longrightarrow> date_cmp P a b = Inr (Some (time_of P a - time_of P b))"
  by (simp add: date_cmp_def has_valid_date_time getTime_def nsub_def)

lemma date_le_valid:
  "has_valid_date P a \<Longrightarrow> has_valid_date P b \<Longrightarrow> date_le P a b = (time_of P a \<le> time_of P b)"
  by (simp add: date_le_def has_valid_date_time)


lemma merge_saved_total:
  assumes "list_all (has_valid_date P) (saved # prev)"
  shows "\<exists>merged. merge_saved P prev saved = Inr merged \<and> sorted_by_date P merged"
proof -
  define xs where "xs = filter (\<lambda>item. dateKey item \<noteq> dateKey saved) prev @ [saved]"
  have v: "has_valid_date P a" if "a \<in> set xs" for a
    using that assms by (auto simp: list_all_iff xs_def)
  have c: "date_cmp P a b = Inr (Some (time_of P a - time_of P b))"
    if "a \<in> set [] \<union> set xs" "b \<in> set [] \<union> set xs" for a b
    using that v by (simp add: date_cmp_valid)
  have s0: "sorted_wrt (\<lambda>a b. time_of P b \<le> time_of P a) []" by simp
  obtain ys where ys: "sort_loop (date_cmp P) [] xs = Inr ys"
    "sorted_wrt (\<lambda>a b. time_of P a \<le> time_of P b) ys"
    using sort_loop_total [of "[]" xs "date_cmp P" "time_of P", OF c s0] by blast
  have m: "merge_saved P prev saved = Inr ys"
    using ys(1) by (simp add: merge_saved_def js_sort_def xs_def)
  have "set ys = set xs" using sort_loop_set [OF ys(1)] by simp
  then have w: "has_valid_date P a" if "a \<in> set ys" for a using that v by simp
  have "sorted_wrt (date_le P) ys"
  proof (rule sorted_wrt_mono_rel [OF _ ys(2)])
    fix a b
    assume "a \<in> set ys" "b \<in> set ys" "time_of P a \<le> time_of P b"
    then show "date_le P a b" using w by (simp add: date_le_valid)
  qed
  then show ?thesis using m by (auto simp: sorted_by_date_def)
qed

lemma the_prop_null: "the_prop JNull name = JUndefined" "the_prop JUndefined name = JUndefined"
  by (simp_all add: the_prop_def get_prop_def)

lemma normalizeEntry_undefined: "normalizeEntry P JUndefined = Inr None"
  by (simp add: normalizeEntry_def truthy_def)

lemma get_prop_the_prop:
  assumes "normalizeEntry P (the_prop body name) = Inr (Some saved)"
  shows "get_prop body name = Inr (the_prop body name)"
proof (cases "body = JNull \<or> body = JUndefined")
  case True
  then show ?thesis using assms by (auto simp: the_prop_null normalizeEntry_undefined)
next
  case False
  then show ?thesis by (cases body) (simp_all add: get_prop_def the_prop_def)
qed

lemma commitSave_saved:
  assumes "normalizeEntry P (the_prop body ''entry'') = Inr (Some saved)"
  shows "commitSave P s payload (Returns body) =
     bind_err (merge_saved P (entries s) saved) (\<lambda>merged.
       Inr (s\<lparr>busy := False, error_text := [], info := ''Entry saved.'',
              requests := requests s @ [SaveEntry payload], entries := merged,
              yearsFromApi :=
                (if JNum (Fin (of_int (selectedYear s))) \<in> set (yearsFromApi s) then yearsFromApi s
                 else yearsFromApi s @ [JNum (Fin (of_int (selectedYear s)))]),
              updatePreview := None\<rparr>))"
  by (cases "merge_saved P (entries s) saved")
     (simp_all add: commitSave_def Let_def get_prop_the_prop [OF assms] assms)

lemma raw_dated_entry:
  "date_key_pattern k \<Longrightarrow> normalizeEntry P (raw_dated k) = Inr (Some (dated_entry k False None))"
  unfolding raw_dated_def normalizeEntry_object [OF object_guard]
  by (simp add: date_key_of_def severity_of_def the_prop_object isValidDateKey_def typeof_def
      js_or_def truthy_def dated_entry_def)

lemma pattern_test: "date_key_pattern ''2024-06-01''" "date_key_pattern ''2024-01-05''"
  by (simp_all add: is_digit_def)

lemma valid_test:
  "has_valid_date test_platform (dated_entry ''2024-06-01'' False None)"
  "has_valid_date test_platform (dated_entry ''2024-06-10'' False None)"
  "has_valid_date test_platform (dated_entry ''2024-01-05'' False None)"
  by (simp_all add: has_valid_date_def dated_entry_def new_Date_test)

lemma dateKey_test: "dateKey (dated_entry k sick sev) = k" "dateKey (undated_entry k) = k"
  by (simp_all add: dated_entry_def undated_entry_def)

lemma date_cmp_test:
  "date_cmp test_platform (undated_entry ''2024-03-01'') (dated_entry ''2024-01-05'' False None) = Inr None"
  "date_cmp test_platform (dated_entry ''2024-06-10'' False None) (undated_entry ''2024-03-01'') = Inr None"
  by (simp_all add: date_cmp_def undated_entry_def dated_entry_def new_Date_test new_Date_undefined
      getTime_def nsub_def)

lemma merge_test:
  "merge_saved test_platform [dated_entry ''2024-06-10'' False None, undated_entry ''2024-03-01'']
     (dated_entry ''2024-01-05'' False None) =
   Inr [dated_entry ''2024-06-10'' False None, undated_entry ''2024-03-01'',
        dated_entry ''2024-01-05'' False None]"
  by (simp add: merge_saved_def js_sort_def date_cmp_test nlt_def dateKey_test)

section \<open>Concrete dates\<close>

text \<open>Values of the model at the concrete years and days that the instances below use.\<close>

lemmas date_eval = Date_UTC_def MakeFullYear_def MakeDay_def MakeDate_def month_start_def
  DayFromYear_def DaysInYear_def TimeClip_def msPerDay_def leap_days_def

lemma jan1_99: "startOfYearUtc 99 = Some 915148800000"
  by (simp add: startOfYearUtc_def date_eval)

lemma next_jan1_99: "startOfNextYearUtc 99 = Some (- 59011459200000)"
  by (simp add: startOfNextYearUtc_def date_eval)

lemma weeks_99: "weeks (YearHeatmap L 99 es) = []"
  by (simp add: YearHeatmap_def Let_def jan1_99 next_jan1_99 dayDiffUtc_def getTime_def nsub_def
      Math_floor_div_def getUTCDay_def WeekDay_def Day_def msPerDay_def nadd_def Math_ceil_div_def
      for_loop.simps [of 0 "Some (- 99084)"] nlt_def)

lemma year_offset_2024: "year_offset 2024 = 1"
  by (simp add: year_offset_def WeekDay_def Day_def DayFromYear_def msPerDay_def)

lemma key_2024_03_05: "calendar_key 2024 3 5 = ''2024-03-05''"
  by (simp add: calendar_key_def String_number_def padStart_def string_of_nat.simps digit_char_def)

lemma key_99_01_01: "calendar_key 99 1 1 = ''99-01-01''"
  by (simp add: calendar_key_def String_number_def padStart_def string_of_nat.simps digit_char_def)

section \<open>Lemmas on the submit step\<close>












































section \<open>C1: the number of day slots\<close>

text \<open>
  C1, as amended. For every year \<open>Y\<close> that \<^verbatim>\<open>Date.UTC\<close> reads as itself and whose
  two January 1sts are valid Dates (100 to 275759, or -271820 to -2), the grid built for
  \<open>Y\<close> from an empty entry list has as many non-empty slots as the year has days: 366
  in a leap year (divisible by 4, and not by 100 unless by 400), 365 otherwise.
\<close>

theorem C1_slot_count:
  assumes "plain_year Y"
  shows "length (nonEmptySlots (YearHeatmap L Y [])) = (if leap_year Y then 366 else 365)"
proof -
  have "length (nonEmptySlots (YearHeatmap L Y [])) = nat (DaysInYear Y)"
    by (simp add: nonEmptySlots_plain_year [OF assms])
  also have "\<dots> = (if leap_year Y then 366 else 365)"
    by (auto simp: DaysInYear_def leap_year_def)
  finally show ?thesis .
qed

theorem C1_witness:
  "plain_year 2024 \<and> length (nonEmptySlots (YearHeatmap short_month_utc 2024 [])) = 366"
  using C1_slot_count [of 2024 short_month_utc] by (simp add: plain_year_def leap_year_def)

text \<open>
  The claim as stated, for every year, fails at \<open>Y = 99\<close>: \<^verbatim>\<open>Date.UTC(99, 0, 1)\<close> is
  January 1 of 1999 and \<^verbatim>\<open>Date.UTC(100, 0, 1)\<close> is January 1 of the year 100, so
  \<^verbatim>\<open>totalDays\<close> is negative and the grid has no week at all, while the year 99 has
  365 days.
\<close>

theorem C1_counterexample:
  "length (nonEmptySlots (YearHeatmap short_month_utc 99 [])) = 0 \<and>
   (if leap_year 99 then 366 else 365) = (365::nat)"
  by (simp add: nonEmptySlots_def slots_def weeks_99 leap_year_def)

section \<open>C2: an entry and its slot\<close>

text \<open>
  C2, as amended. Let \<open>Y\<close> be a plain year and \<open>E\<close> an entry whose date key is that of
  day \<open>d\<close> of month \<open>m\<close> of \<open>Y\<close>. In the grid built for \<open>Y\<close> from \<open>[E]\<close> exactly
  one slot holds \<open>E\<close>: the slot of the date \<^verbatim>\<open>Date.UTC(Y, m - 1, d)\<close>, whose date key,
  derived from that date by its UTC fields, is the key of \<open>E\<close>. The number of leading
  empty slots in week 0 is the UTC weekday (0 = Sunday) of January 1 of \<open>Y\<close>.
\<close>

theorem C2_entry_in_one_slot:
  assumes "plain_year Y" "1 \<le> m" "m \<le> 12" "1 \<le> d" "d \<le> days_in_month Y m"
    and "dateKey E = calendar_key Y m d"
  shows "filter (\<lambda>c. cell_entry c = Some E) (nonEmptySlots (YearHeatmap L Y [E])) =
           [\<lparr>cell_date = Date_UTC Y (m - 1) d, cell_dateKey = dateKey E, cell_entry = Some E\<rparr>]
         \<and> toDateKey (Date_UTC Y (m - 1) d) = dateKey E
         \<and> int (leading_empty (YearHeatmap L Y [E])) = year_offset Y"
proof -
  let ?l = "DaysInYear Y = 366"
  define k0 where "k0 = month_start (m - 1) ?l + d - 1"
  have j: "0 \<le> m - 1" "m - 1 \<le> 11" using assms(2,3) by simp_all
  have dim: "d \<le> month_end (m - 1) ?l - month_start (m - 1) ?l"
    using assms(5) days_in_month_eq [OF assms(2,3), of Y] by simp
  have k0: "month_start (m - 1) ?l \<le> k0" "k0 < month_end (m - 1) ?l"
    using assms(4) dim by (simp_all add: k0_def)
  have k0r: "0 \<le> k0" "k0 \<le> DaysInYear Y - 1"
    using month_start_bounds [OF j, of ?l] k0 DaysInYear_leap [of Y] by auto
  have key0: "toDateKey (Date_UTC Y 0 (1 + k0)) = dateKey E"
    using toDateKey_day [OF assms(1) j k0] by (simp add: assms(6) k0_def)
  have date0: "Date_UTC Y (m - 1) d = Date_UTC Y 0 (1 + k0)"
    unfolding k0_def by (rule Date_UTC_month_day [OF assms(1) j])
  have only: "(toDateKey (Date_UTC Y 0 (1 + k)) = dateKey E) = (k = k0)"
    if "k \<in> set [0..DaysInYear Y - 1]" for k
  proof
    assume e: "toDateKey (Date_UTC Y 0 (1 + k)) = dateKey E"
    have k: "0 \<le> k" "k < DaysInYear Y" using that by simp_all
    obtain i where i: "0 \<le> i" "i \<le> 11" "month_start i ?l \<le> k" "k < month_end i ?l"
      using day_in_some_month [OF k] by blast
    let ?d = "k - month_start i ?l + 1"
    have "calendar_key Y (i + 1) ?d = calendar_key Y m d"
      using toDateKey_day [OF assms(1) i] e assms(6) by simp
    moreover have "0 \<le> ?d" "?d < 100" using i month_length_le [OF i(1,2), of ?l] by simp_all
    moreover have "d < 100" using assms(5) by (simp add: days_in_month_def split: if_splits)
    ultimately have "i + 1 = m \<and> ?d = d"
      using i(1,2) assms(2,3,4) by (intro calendar_key_inj) simp_all
    then show "k = k0" by (auto simp: k0_def)
  next
    assume "k = k0"
    then show "toDateKey (Date_UTC Y 0 (1 + k)) = dateKey E" using key0 by simp
  qed
  have "filter (\<lambda>c. cell_entry c = Some E) (nonEmptySlots (YearHeatmap L Y [E])) =
          map (day_of Y [dateKey E \<mapsto> E]) (filter (\<lambda>k. toDateKey (Date_UTC Y 0 (1 + k)) = dateKey E) [0..DaysInYear Y - 1])"
    by (simp add: nonEmptySlots_plain_year [OF assms(1)] entriesByKey_single filter_map comp_def day_of_def)
  also have "filter (\<lambda>k. toDateKey (Date_UTC Y 0 (1 + k)) = dateKey E) [0..DaysInYear Y - 1] =
          filter (\<lambda>k. k = k0) [0..DaysInYear Y - 1]"
    using only by (intro filter_cong) simp_all
  also have "\<dots> = [k0]" using k0r by (rule filter_eq_upto)
  finally have "filter (\<lambda>c. cell_entry c = Some E) (nonEmptySlots (YearHeatmap L Y [E])) =
      [\<lparr>cell_date = Date_UTC Y (m - 1) d, cell_dateKey = dateKey E, cell_entry = Some E\<rparr>]"
    by (simp add: day_of_def key0 date0)
  moreover have "toDateKey (Date_UTC Y (m - 1) d) = dateKey E" using key0 date0 by simp
  ultimately show ?thesis using leading_empty_plain_year [OF assms(1)] by simp
qed

theorem C2_witness:
  "plain_year 2024 \<and> (1::int) \<le> 3 \<and> (3::int) \<le> 12 \<and> (1::int) \<le> 5 \<and> 5 \<le> days_in_month 2024 3 \<and>
   dateKey (sick_entry ''2024-03-05'' 3) = calendar_key 2024 3 5 \<and>
   filter (\<lambda>c. cell_entry c = Some (sick_entry ''2024-03-05'' 3))
     (nonEmptySlots (YearHeatmap short_month_utc 2024 [sick_entry ''2024-03-05'' 3])) =
     [\<lparr>cell_date = Date_UTC 2024 2 5, cell_dateKey = ''2024-03-05'',
       cell_entry = Some (sick_entry ''2024-03-05'' 3)\<rparr>] \<and>
   toDateKey (Date_UTC 2024 2 5) = ''2024-03-05'' \<and>
   leading_empty (YearHeatmap short_month_utc 2024 [sick_entry ''2024-03-05'' 3]) = 1"
proof -
  have h: "plain_year 2024" "(1::int) \<le> 3" "(3::int) \<le> 12" "(1::int) \<le> 5" "5 \<le> days_in_month 2024 3"
    "dateKey (sick_entry ''2024-03-05'' 3) = calendar_key 2024 3 5"
    by (simp_all add: plain_year_def days_in_month_def key_2024_03_05 sick_entry_def)
  show ?thesis
    using h C2_entry_in_one_slot [OF h, of short_month_utc]
    by (simp add: year_offset_2024 sick_entry_def)
qed

text \<open>
  The claim as stated, for every year, fails at \<open>Y = 99\<close>: the grid built for 99 has no
  slot (see C1), so an entry of January 1 of the year 99 is in none.
\<close>

theorem C2_counterexample:
  "(1::int) \<le> days_in_month 99 1 \<and> dateKey (sick_entry ''99-01-01'' 3) = calendar_key 99 1 1 \<and>
   filter (\<lambda>c. cell_entry c = Some (sick_entry ''99-01-01'' 3))
     (nonEmptySlots (YearHeatmap short_month_utc 99 [sick_entry ''99-01-01'' 3])) = []"
  by (simp add: days_in_month_def key_99_01_01 sick_entry_def nonEmptySlots_def slots_def weeks_99)

section \<open>C5: the month labels\<close>

text \<open>
  C5, as amended. For a plain year the twelve month spans (first week column
  \<open>floor(first flat index / 7)\<close>, end \<open>ceil(next month's first flat index / 7)\<close>) are
  contiguous: they begin at week 0, each month begins in the last week column of the month
  before it or right after it (two neighbours share at most that one column), and December
  ends at the last week column. The two neighbours do share that column whenever the boundary
  between the months falls inside a week, that is, unless the first day of the later month
  is a Sunday, the first row of a week column; then the later month begins right after it.
  Every week column of the grid holds a day of the year and lies in some span.
\<close>

theorem C5_month_spans:
  assumes "plain_year Y"
  shows "\<exists>sp. map span_of (monthLayout (YearHeatmap L Y es)) = map Some sp \<and> length sp = 12 \<and>
           contiguous sp \<and> share_at_most_one sp \<and> boundary_shared Y sp \<and>
           fst (hd sp) = 0 \<and> snd (last sp) = int (length (weeks (YearHeatmap L Y es))) \<and>
           list_all (\<lambda>wk. has_day wk \<and> covered sp (index wk)) (weeks (YearHeatmap L Y es))"
proof -
  let ?g = "YearHeatmap L Y es"
  let ?sp = "map (month_span Y) [0..11]"
  have off: "0 \<le> year_offset Y" "year_offset Y < 7" unfolding year_offset_def by (rule WeekDay_range)+
  have len: "length (weeks ?g) = nat (week_count Y)"
    using arg_cong [OF weeks_plain_year [OF assms, of L es], of length] by simp
  have hd: "fst (hd ?sp) = 0"
    using off by (simp add: upto_0_11 month_span_def month_start_def Let_def)
  have last: "snd (last ?sp) = week_count Y"
    using DaysInYear_leap [of Y]
    by (simp add: upto_0_11 month_span_def month_end_def week_count_def Let_def)
  have cov: "has_day wk \<and> covered ?sp (index wk)" if "wk \<in> set (weeks ?g)" for wk
  proof -
    have "(index wk, days wk) \<in> set (map (\<lambda>wk. (index wk, days wk)) (weeks ?g))"
      using that by (simp add: image_iff) blast
    then obtain w where w: "0 \<le> w" "w < week_count Y" "index wk = w"
      "days wk = map (cell_at Y (entriesByKey es) (year_offset Y) (DaysInYear Y)) [w * 7..w * 7 + 6]"
      unfolding weeks_plain_year [OF assms] by auto
    have "has_day wk" unfolding has_day_def w(4) using w(1,2) by (rule week_has_day)
    moreover have "covered ?sp w"
      using contiguous_months hd last w(1,2) by (intro contiguous_covers) (simp_all add: upto_0_11)
    ultimately show ?thesis using w(3) by simp
  qed
  have "map span_of (monthLayout ?g) = map Some ?sp"
    using month_spans_plain_year [OF assms, of L es] by simp
  moreover have "length ?sp = 12" by simp
  moreover have "snd (last ?sp) = int (length (weeks ?g))"
    using last len week_count_nonneg [of Y] by simp
  moreover have "list_all (\<lambda>wk. has_day wk \<and> covered ?sp (index wk)) (weeks ?g)"
    using cov by (simp add: list_all_iff)
  ultimately show ?thesis using contiguous_months share_months boundary_months [OF assms] hd by blast
qed

theorem C5_witness:
  "plain_year 2024 \<and>
   (\<exists>sp. map span_of (monthLayout (YearHeatmap short_month_utc 2024 [])) = map Some sp \<and> length sp = 12 \<and>
           contiguous sp \<and> share_at_most_one sp \<and> boundary_shared 2024 sp \<and>
           fst (hd sp) = 0 \<and> snd (last sp) = int (length (weeks (YearHeatmap short_month_utc 2024 []))) \<and>
           list_all (\<lambda>wk. has_day wk \<and> covered sp (index wk)) (weeks (YearHeatmap short_month_utc 2024 [])))"
  using C5_month_spans [of 2024 short_month_utc "[]"] by (simp add: plain_year_def)

text \<open>
  The claim as stated also asks for spans that do not overlap. In 2024 January spans the
  week columns 0 to 4 and February begins in week column 4: February 1 is a Thursday, so
  the column of the week from January 28 belongs to both.
\<close>

lemma spans_2024:
  "map span_of (monthLayout (YearHeatmap short_month_utc 2024 [])) =
     map Some [(0, 5), (4, 9), (8, 14), (13, 18), (17, 22), (21, 27), (26, 31), (30, 35), (35, 40),
               (39, 44), (43, 48), (48, 53)]"
proof -
  have "plain_year 2024" by (simp add: plain_year_def)
  then show ?thesis
    by (simp add: month_spans_plain_year upto_0_11 month_span_def year_offset_2024 month_start_def
        month_end_def leap_days_def DaysInYear_def)
qed

theorem C5_counterexample:
  "map span_of (monthLayout (YearHeatmap short_month_utc 2024 [])) =
     map Some [(0, 5), (4, 9), (8, 14), (13, 18), (17, 22), (21, 27), (26, 31), (30, 35), (35, 40),
               (39, 44), (43, 48), (48, 53)] \<and>
   \<not> non_overlapping [(0, 5), (4, 9), (8, 14), (13, 18), (17, 22), (21, 27), (26, 31), (30, 35), (35, 40),
               (39, 44), (43, 48), (48, 53)]"
  using spans_2024 by simp

section \<open>C6: malformed input\<close>

text \<open>
  C6 says that \<^verbatim>\<open>normalizeEntry\<close> never throws. It throws a TypeError on the raw entry
  \<^verbatim>\<open>{ dateKey: "2024-03-05", isSick: true, severity: { toString: 1 } }\<close>, on every
  platform: \<^verbatim>\<open>Number(raw.severity || 1)\<close> converts the object to a primitive, and its own
  \<^verbatim>\<open>toString\<close> cannot be called.
\<close>

theorem C6_throws:
  "normalizeEntry P (raw_sick (JObj [(''toString'', JNum (Fin 1))])) = Inl TypeError"
  by (simp add: raw_sick_entry js_or_def truthy_def Number_bad_object)

theorem C6_witness:
  "normalizeEntry test_platform (raw_sick (JObj [(''toString'', JNum (Fin 1))])) = Inl TypeError"
  using C6_throws [of test_platform] by simp

text \<open>What the rest of C6 says holds: the result is \<^verbatim>\<open>null\<close> exactly on malformed input,
  and no exception is thrown when \<^verbatim>\<open>date\<close> and \<^verbatim>\<open>severity\<close> are primitives.\<close>

lemma normalizeEntry_null_iff:
  assumes "normalizeEntry P raw = Inr r"
  shows "r = None \<longleftrightarrow>
           (\<not> truthy raw \<or> typeof raw \<noteq> ''object'' \<or> typeof (the_prop raw ''isSick'') \<noteq> ''boolean'' \<or>
            \<not> (\<exists>k. date_key_of P raw = Inr k \<and> isValidDateKey k))"
proof (cases "truthy raw \<and> typeof raw = ''object''")
  case False
  then show ?thesis using assms normalizeEntry_not_object [of raw P] by auto
next
  case True
  then have t: "truthy raw" "typeof raw = ''object''" by simp_all
  obtain k where k: "date_key_of P raw = Inr k"
    using assms unfolding normalizeEntry_object [OF t] bind_err_eq_Inr by blast
  show ?thesis
  proof (cases "\<not> isValidDateKey k \<or> typeof (the_prop raw ''isSick'') \<noteq> ''boolean''")
    case True
    then show ?thesis using assms t unfolding normalizeEntry_object [OF t] k by auto
  next
    case False
    then have "r \<noteq> None"
      using assms unfolding normalizeEntry_object [OF t] k by (auto simp: bind_err_eq_Inr)
    then show ?thesis using False t k by auto
  qed
qed

lemma normalizeEntry_returns:
  assumes "is_primitive (the_prop raw ''date'')" "is_primitive (the_prop raw ''severity'')"
  shows "\<exists>r. normalizeEntry P raw = Inr r"
proof (cases "truthy raw \<and> typeof raw = ''object''")
  case False
  then show ?thesis using normalizeEntry_not_object [of raw P] by auto
next
  case True
  then have t: "truthy raw" "typeof raw = ''object''" by simp_all
  have "\<exists>k. date_key_of P raw = Inr k"
    by (simp add: date_key_of_def new_Date_def ToPrimitive_primitive [OF assms(1)])
  moreover have "is_primitive (js_or (the_prop raw ''severity'') (JNum (Fin 1)))"
    using assms(2) by (simp add: js_or_def is_primitive_def)
  then have "\<exists>sv. severity_of P raw = Inr sv"
    by (simp add: severity_of_def Number_primitive)
  ultimately show ?thesis unfolding normalizeEntry_object [OF t] by auto
qed

section \<open>C7: the severity of an accepted entry\<close>

text \<open>
  C7. For every raw entry that \<^verbatim>\<open>normalizeEntry\<close> accepts, \<^verbatim>\<open>isSick\<close> is the raw
  boolean; if it is true the severity is \<^verbatim>\<open>Number(raw.severity || 1)\<close>, which is 1 when
  the raw severity is absent or falsy and \<^verbatim>\<open>Number(raw.severity)\<close> otherwise; if it is
  false the severity is \<^verbatim>\<open>null\<close>, whatever the raw severity was. Such entries are
  accepted: a raw object with a date key of the pattern is accepted with severity
  \<^verbatim>\<open>null\<close> when \<^verbatim>\<open>isSick\<close> is \<^verbatim>\<open>false\<close>, whatever its severity is, with severity 1
  when \<^verbatim>\<open>isSick\<close> is \<^verbatim>\<open>true\<close> and the severity is absent or falsy, and with severity
  \<^verbatim>\<open>Number(raw.severity)\<close> when \<^verbatim>\<open>isSick\<close> is \<^verbatim>\<open>true\<close> and that conversion returns.
\<close>

theorem C7_severity:
  "(\<forall>e. normalizeEntry P raw = Inr (Some e) \<longrightarrow>
      the_prop raw ''isSick'' = JBool (isSick e) \<and>
      (isSick e \<longrightarrow>
         (\<exists>n. Number P (js_or (the_prop raw ''severity'') (JNum (Fin 1))) = Inr n \<and> severity e = Some n)) \<and>
      (isSick e \<longrightarrow> \<not> truthy (the_prop raw ''severity'') \<longrightarrow> severity e = Some (Fin 1)) \<and>
      (isSick e \<longrightarrow> truthy (the_prop raw ''severity'') \<longrightarrow>
         (\<exists>n. Number P (the_prop raw ''severity'') = Inr n \<and> severity e = Some n)) \<and>
      (\<not> isSick e \<longrightarrow> severity e = None)) \<and>
   (truthy raw \<and> typeof raw = ''object'' \<and> isValidDateKey (the_prop raw ''dateKey'') \<longrightarrow>
      (the_prop raw ''isSick'' = JBool False \<longrightarrow>
         (\<exists>e. normalizeEntry P raw = Inr (Some e) \<and> \<not> isSick e \<and> severity e = None)) \<and>
      (the_prop raw ''isSick'' = JBool True \<longrightarrow> \<not> truthy (the_prop raw ''severity'') \<longrightarrow>
         (\<exists>e. normalizeEntry P raw = Inr (Some e) \<and> isSick e \<and> severity e = Some (Fin 1))) \<and>
      (the_prop raw ''isSick'' = JBool True \<longrightarrow> truthy (the_prop raw ''severity'') \<longrightarrow>
         (\<forall>n. Number P (the_prop raw ''severity'') = Inr n \<longrightarrow>
            (\<exists>e. normalizeEntry P raw = Inr (Some e) \<and> isSick e \<and> severity e = Some n))))"
proof -
  have accepted: "the_prop raw ''isSick'' = JBool (isSick e) \<and>
      (isSick e \<longrightarrow>
         (\<exists>n. Number P (js_or (the_prop raw ''severity'') (JNum (Fin 1))) = Inr n \<and> severity e = Some n)) \<and>
      (isSick e \<longrightarrow> \<not> truthy (the_prop raw ''severity'') \<longrightarrow> severity e = Some (Fin 1)) \<and>
      (isSick e \<longrightarrow> truthy (the_prop raw ''severity'') \<longrightarrow>
         (\<exists>n. Number P (the_prop raw ''severity'') = Inr n \<and> severity e = Some n)) \<and>
      (\<not> isSick e \<longrightarrow> severity e = None)"
    if h: "normalizeEntry P raw = Inr (Some e)" for e
  proof -
    obtain b where b: "the_prop raw ''isSick'' = JBool b" "isSick e = b"
      using normalizeEntry_Some(4) [OF h] by blast
    have sv: "severity_of P raw = Inr (severity e)" by (rule normalizeEntry_Some(5) [OF h])
    show ?thesis
    proof (cases b)
      case True
      then have "bind_err (Number P (js_or (the_prop raw ''severity'') (JNum (Fin 1)))) (\<lambda>n. Inr (Some n))
          = Inr (severity e)"
        using sv b by (simp add: severity_of_def)
      then obtain n where "Number P (js_or (the_prop raw ''severity'') (JNum (Fin 1))) = Inr n"
        "severity e = Some n"
        unfolding bind_err_eq_Inr by auto
      then show ?thesis using b True by (auto simp: js_or_def Number_number)
    next
      case False
      then show ?thesis using sv b by (simp add: severity_of_def)
    qed
  qed
  have healthy: "\<exists>e. normalizeEntry P raw = Inr (Some e) \<and> \<not> isSick e \<and> severity e = None"
    if "truthy raw" "typeof raw = ''object''" "isValidDateKey (the_prop raw ''dateKey'')"
      "the_prop raw ''isSick'' = JBool False"
    unfolding normalizeEntry_dated [OF that] using that(4) by (simp add: severity_of_def)
  have falsy: "\<exists>e. normalizeEntry P raw = Inr (Some e) \<and> isSick e \<and> severity e = Some (Fin 1)"
    if "truthy raw" "typeof raw = ''object''" "isValidDateKey (the_prop raw ''dateKey'')"
      "the_prop raw ''isSick'' = JBool True" "\<not> truthy (the_prop raw ''severity'')"
    unfolding normalizeEntry_dated [OF that(1-4)]
    using that(4,5) by (simp add: severity_of_def js_or_def Number_number)
  have sick: "\<exists>e. normalizeEntry P raw = Inr (Some e) \<and> isSick e \<and> severity e = Some n"
    if "truthy raw" "typeof raw = ''object''" "isValidDateKey (the_prop raw ''dateKey'')"
      "the_prop raw ''isSick'' = JBool True" "truthy (the_prop raw ''severity'')"
      "Number P (the_prop raw ''severity'') = Inr n" for n
    unfolding normalizeEntry_dated [OF that(1-4)]
    using that(4,5,6) by (simp add: severity_of_def js_or_def)
  show ?thesis using accepted healthy falsy sick by blast
qed

text \<open>
  Instances: \<^verbatim>\<open>{ dateKey: "2024-03-05", isSick: false, severity: 4 }\<close> is accepted with
  severity \<^verbatim>\<open>null\<close>; with \<^verbatim>\<open>isSick: true\<close>, the severities \<^verbatim>\<open>null\<close> and 0 give 1,
  the severity 3 gives 3 and the string \<^verbatim>\<open>"4"\<close> gives 4.
\<close>

theorem C7_witness:
  "truthy (raw_healthy (JNum (Fin 4))) \<and> typeof (raw_healthy (JNum (Fin 4))) = ''object'' \<and>
   isValidDateKey (the_prop (raw_healthy (JNum (Fin 4))) ''dateKey'') \<and>
   the_prop (raw_healthy (JNum (Fin 4))) ''isSick'' = JBool False \<and>
   normalizeEntry test_platform (raw_healthy (JNum (Fin 4))) =
     Inr (Some \<lparr>entry_id = JNull, date = JUndefined, dateKey = ''2024-03-05'', isSick = False,
                severity = None\<rparr>) \<and>
   the_prop (raw_sick JNull) ''isSick'' = JBool True \<and> \<not> truthy (the_prop (raw_sick JNull) ''severity'') \<and>
   normalizeEntry test_platform (raw_sick JNull) =
     Inr (Some \<lparr>entry_id = JNull, date = JUndefined, dateKey = ''2024-03-05'', isSick = True,
                severity = Some (Fin 1)\<rparr>) \<and>
   \<not> truthy (the_prop (raw_sick (JNum (Fin 0))) ''severity'') \<and>
   normalizeEntry test_platform (raw_sick (JNum (Fin 0))) =
     Inr (Some \<lparr>entry_id = JNull, date = JUndefined, dateKey = ''2024-03-05'', isSick = True,
                severity = Some (Fin 1)\<rparr>) \<and>
   truthy (the_prop (raw_sick (JNum (Fin 3))) ''severity'') \<and>
   Number test_platform (the_prop (raw_sick (JNum (Fin 3))) ''severity'') = Inr (Fin 3) \<and>
   normalizeEntry test_platform (raw_sick (JNum (Fin 3))) =
     Inr (Some \<lparr>entry_id = JNull, date = JUndefined, dateKey = ''2024-03-05'', isSick = True,
                severity = Some (Fin 3)\<rparr>) \<and>
   truthy (the_prop (raw_sick (JStr ''4'')) ''severity'') \<and>
   Number test_platform (the_prop (raw_sick (JStr ''4'')) ''severity'') = Inr (Fin 4) \<and>
   normalizeEntry test_platform (raw_sick (JStr ''4'')) =
     Inr (Some \<lparr>entry_id = JNull, date = JUndefined, dateKey = ''2024-03-05'', isSick = True,
                severity = Some (Fin 4)\<rparr>)"
proof -
  have g: "truthy (raw_healthy v)" "typeof (raw_healthy v) = ''object''"
    "isValidDateKey (the_prop (raw_healthy v) ''dateKey'')"
    "the_prop (raw_healthy v) ''isSick'' = JBool False"
    "the_prop (raw_sick v) ''isSick'' = JBool True"
    "the_prop (raw_sick v) ''severity'' = v" for v
    by (simp_all add: raw_healthy_def raw_sick_def object_guard the_prop_object isValidDateKey_def
        is_digit_def)
  have t: "\<not> truthy JNull" "\<not> truthy (JNum (Fin 0))" "truthy (JNum (Fin 3))" "truthy (JStr ''4'')"
    by (simp_all add: truthy_def)
  have n: "Number test_platform (JStr ''4'') = Inr (Fin 4)"
    by (simp add: Number_def ToPrimitive_def ToNumber_primitive_def string_to_number_def is_digit_def
        digits_value_def)
  have e: "normalizeEntry test_platform (raw_sick JNull) =
     Inr (Some \<lparr>entry_id = JNull, date = JUndefined, dateKey = ''2024-03-05'', isSick = True,
                severity = Some (Fin 1)\<rparr>)"
    "normalizeEntry test_platform (raw_sick (JNum (Fin 0))) =
     Inr (Some \<lparr>entry_id = JNull, date = JUndefined, dateKey = ''2024-03-05'', isSick = True,
                severity = Some (Fin 1)\<rparr>)"
    "normalizeEntry test_platform (raw_sick (JNum (Fin 3))) =
     Inr (Some \<lparr>entry_id = JNull, date = JUndefined, dateKey = ''2024-03-05'', isSick = True,
                severity = Some (Fin 3)\<rparr>)"
    "normalizeEntry test_platform (raw_sick (JStr ''4'')) =
     Inr (Some \<lparr>entry_id = JNull, date = JUndefined, dateKey = ''2024-03-05'', isSick = True,
                severity = Some (Fin 4)\<rparr>)"
    by (simp_all add: raw_sick_entry js_or_def t n Number_number)
  show ?thesis
    using C7_severity [of test_platform "raw_healthy (JNum (Fin 4))"]
      C7_severity [of test_platform "raw_sick JNull"]
      C7_severity [of test_platform "raw_sick (JNum (Fin 0))"]
      C7_severity [of test_platform "raw_sick (JNum (Fin 3))"]
      C7_severity [of test_platform "raw_sick (JStr ''4'')"]
    by (simp add: g t n e raw_healthy_entry Number_number)
qed

section \<open>C8: the invariant of the data model\<close>

text \<open>
  C8, as amended. Every entry that \<^verbatim>\<open>normalizeEntry\<close> returns has no severity when it is
  not sick and a severity when it is sick. That severity is 1 when the raw severity is absent
  or falsy and the raw severity itself when that is an integer from 1 to 5, so the invariant of
  the data model holds for such raw entries. Otherwise it is \<^verbatim>\<open>Number(raw.severity)\<close>, as
  the server sent it: no range is enforced.
\<close>

theorem C8_severity_presence:
  assumes "normalizeEntry P raw = Inr (Some e)"
  shows "(\<not> isSick e \<longrightarrow> severity e = None) \<and>
         (isSick e \<longrightarrow> severity e \<noteq> None) \<and>
         (isSick e \<longrightarrow> \<not> truthy (the_prop raw ''severity'') \<longrightarrow> severity e = Some (Fin 1)) \<and>
         (isSick e \<longrightarrow> (\<forall>n. the_prop raw ''severity'' = JNum n \<longrightarrow> severity_1_to_5 n \<longrightarrow> severity e = Some n)) \<and>
         (isSick e \<longrightarrow> truthy (the_prop raw ''severity'') \<longrightarrow>
            (\<exists>n. Number P (the_prop raw ''severity'') = Inr n \<and> severity e = Some n)) \<and>
         ((\<not> truthy (the_prop raw ''severity'') \<or>
           (\<exists>n. the_prop raw ''severity'' = JNum n \<and> severity_1_to_5 n)) \<longrightarrow> entry_invariant e)"
proof -
  obtain b where b: "the_prop raw ''isSick'' = JBool b" "isSick e = b"
    using normalizeEntry_Some(4) [OF assms] by blast
  have sv: "severity_of P raw = Inr (severity e)" by (rule normalizeEntry_Some(5) [OF assms])
  show ?thesis
  proof (cases b)
    case False
    then show ?thesis using sv b by (simp add: severity_of_def entry_invariant_def)
  next
    case True
    then have n: "bind_err (Number P (js_or (the_prop raw ''severity'') (JNum (Fin 1)))) (\<lambda>n. Inr (Some n))
        = Inr (severity e)"
      using sv b by (simp add: severity_of_def)
    then obtain n where n: "Number P (js_or (the_prop raw ''severity'') (JNum (Fin 1))) = Inr n" "severity e = Some n"
      unfolding bind_err_eq_Inr by auto
    have falsy: "severity e = Some (Fin 1)" if "\<not> truthy (the_prop raw ''severity'')"
      using that n by (simp add: js_or_def Number_number)
    have num: "severity e = Some m" if "the_prop raw ''severity'' = JNum m" "severity_1_to_5 m" for m
    proof -
      have "truthy (JNum m)" using that(2) by (cases m) (auto simp: truthy_def severity_1_to_5_def)
      then show ?thesis using that(1) n by (simp add: js_or_def Number_number)
    qed
    have other: "\<exists>m. Number P (the_prop raw ''severity'') = Inr m \<and> severity e = Some m"
      if "truthy (the_prop raw ''severity'')"
      using that n by (simp add: js_or_def)
    have one: "severity_1_to_5 (Fin 1)" by (simp add: severity_1_to_5_def is_integer_def)
    show ?thesis
      using b True n(2) falsy num other one by (auto simp: entry_invariant_def)
  qed
qed

text \<open>
  Instances: \<^verbatim>\<open>{ dateKey: "2024-03-05", isSick: true, severity: 3 }\<close> is accepted with
  severity 3 and satisfies the invariant; with the severity \<^verbatim>\<open>"7"\<close> it is accepted with
  \<^verbatim>\<open>Number("7")\<close>, which is 7; with the severity \<^verbatim>\<open>null\<close> it is accepted with
  severity 1; with \<^verbatim>\<open>isSick: false\<close> and the severity 2 it is accepted with no severity.
\<close>

theorem C8_witness:
  "normalizeEntry test_platform (raw_sick (JNum (Fin 3))) =
     Inr (Some \<lparr>entry_id = JNull, date = JUndefined, dateKey = ''2024-03-05'', isSick = True,
                severity = Some (Fin 3)\<rparr>) \<and>
   the_prop (raw_sick (JNum (Fin 3))) ''severity'' = JNum (Fin 3) \<and> severity_1_to_5 (Fin 3) \<and>
   entry_invariant \<lparr>entry_id = JNull, date = JUndefined, dateKey = ''2024-03-05'', isSick = True,
                severity = Some (Fin 3)\<rparr> \<and>
   normalizeEntry test_platform (raw_sick (JStr ''7'')) =
     Inr (Some \<lparr>entry_id = JNull, date = JUndefined, dateKey = ''2024-03-05'', isSick = True,
                severity = Some (Fin 7)\<rparr>) \<and>
   truthy (the_prop (raw_sick (JStr ''7'')) ''severity'') \<and>
   Number test_platform (the_prop (raw_sick (JStr ''7'')) ''severity'') = Inr (Fin 7) \<and>
   \<not> truthy (the_prop (raw_sick JNull) ''severity'') \<and>
   normalizeEntry test_platform (raw_sick JNull) =
     Inr (Some \<lparr>entry_id = JNull, date = JUndefined, dateKey = ''2024-03-05'', isSick = True,
                severity = Some (Fin 1)\<rparr>) \<and>
   entry_invariant \<lparr>entry_id = JNull, date = JUndefined, dateKey = ''2024-03-05'', isSick = True,
                severity = Some (Fin 1)\<rparr> \<and>
   normalizeEntry test_platform (raw_healthy (JNum (Fin 2))) =
     Inr (Some \<lparr>entry_id = JNull, date = JUndefined, dateKey = ''2024-03-05'', isSick = False,
                severity = None\<rparr>) \<and>
   entry_invariant \<lparr>entry_id = JNull, date = JUndefined, dateKey = ''2024-03-05'', isSick = False,
                severity = None\<rparr>"
proof -
  have h: "normalizeEntry test_platform (raw_sick (JNum (Fin 3))) =
     Inr (Some \<lparr>entry_id = JNull, date = JUndefined, dateKey = ''2024-03-05'', isSick = True,
                severity = Some (Fin 3)\<rparr>)"
    by (simp add: raw_sick_entry js_or_def truthy_def Number_number)
  have p: "the_prop (raw_sick (JNum (Fin 3))) ''severity'' = JNum (Fin 3)" "severity_1_to_5 (Fin 3)"
    by (simp_all add: raw_sick_def the_prop_object severity_1_to_5_def is_integer_def)
  have n: "Number test_platform (JStr ''7'') = Inr (Fin 7)"
    by (simp add: Number_def ToPrimitive_def ToNumber_primitive_def string_to_number_def is_digit_def
        digits_value_def)
  have q: "the_prop (raw_sick (JStr ''7'')) ''severity'' = JStr ''7''" "truthy (JStr ''7'')"
    by (simp_all add: raw_sick_def the_prop_object truthy_def)
  have k: "normalizeEntry test_platform (raw_sick (JStr ''7'')) =
     Inr (Some \<lparr>entry_id = JNull, date = JUndefined, dateKey = ''2024-03-05'', isSick = True,
                severity = Some (Fin 7)\<rparr>)"
    by (simp add: raw_sick_entry js_or_def q n)
  have z: "the_prop (raw_sick JNull) ''severity'' = JNull" "\<not> truthy JNull"
    by (simp_all add: raw_sick_def the_prop_object truthy_def)
  have d: "normalizeEntry test_platform (raw_sick JNull) =
     Inr (Some \<lparr>entry_id = JNull, date = JUndefined, dateKey = ''2024-03-05'', isSick = True,
                severity = Some (Fin 1)\<rparr>)"
    by (simp add: raw_sick_entry js_or_def z Number_number)
  have w: "normalizeEntry test_platform (raw_healthy (JNum (Fin 2))) =
     Inr (Some \<lparr>entry_id = JNull, date = JUndefined, dateKey = ''2024-03-05'', isSick = False,
                severity = None\<rparr>)"
    by (rule raw_healthy_entry)
  have i: "entry_invariant \<lparr>entry_id = JNull, date = JUndefined, dateKey = ''2024-03-05'', isSick = True,
                severity = Some (Fin 1)\<rparr>"
    "entry_invariant \<lparr>entry_id = JNull, date = JUndefined, dateKey = ''2024-03-05'', isSick = False,
                severity = None\<rparr>"
    using C8_severity_presence [OF d] C8_severity_presence [OF w]
    by (simp_all add: z raw_healthy_def the_prop_object severity_1_to_5_def is_integer_def)
  show ?thesis
    using h p n q k z d w i C8_severity_presence [OF h] C8_severity_presence [OF k] by simp
qed

text \<open>
  The claim as stated fails for \<^verbatim>\<open>{ dateKey: "2024-03-05", isSick: true, severity: 9 }\<close>: the
  entry is accepted with severity 9.
\<close>

theorem C8_counterexample:
  "normalizeEntry test_platform (raw_sick (JNum (Fin 9))) =
     Inr (Some \<lparr>entry_id = JNull, date = JUndefined, dateKey = ''2024-03-05'', isSick = True,
                severity = Some (Fin 9)\<rparr>) \<and>
   \<not> entry_invariant \<lparr>entry_id = JNull, date = JUndefined, dateKey = ''2024-03-05'', isSick = True,
                severity = Some (Fin 9)\<rparr>"
  by (simp add: raw_sick_entry js_or_def truthy_def Number_number entry_invariant_def severity_1_to_5_def)

section \<open>C10: an entry without a date\<close>

text \<open>
  C10. A raw object with a date key of the pattern, a boolean \<^verbatim>\<open>isSick\<close> and no
  \<^verbatim>\<open>date\<close> is accepted whenever \<^verbatim>\<open>isSick\<close> is false or the conversion
  \<^verbatim>\<open>Number(raw.severity || 1)\<close> returns: the entry has the raw date, \<^verbatim>\<open>undefined\<close>, for
  which \<^verbatim>\<open>new Date\<close> gives an invalid Date, and whenever the merge step returns, the entry
  is in the merged collection. When that conversion throws, \<^verbatim>\<open>normalizeEntry\<close> throws
  the same exception and returns no entry: so it is, with a TypeError, when \<^verbatim>\<open>isSick\<close> is
  true and the severity is an object with an own property \<^verbatim>\<open>toString\<close>, as in
  \<^verbatim>\<open>{ dateKey: "2024-03-05", isSick: true, severity: { toString: 1 } }\<close>.
\<close>

theorem C10_entry_without_date:
  assumes "map_of ps ''dateKey'' = Some (JStr k)" "date_key_pattern k"
    and "map_of ps ''isSick'' = Some (JBool b)" "map_of ps ''date'' = None"
  shows "((b \<longrightarrow> (\<exists>n. Number P (js_or (the_prop (JObj ps) ''severity'') (JNum (Fin 1))) = Inr n)) \<longrightarrow>
            (\<exists>e. normalizeEntry P (JObj ps) = Inr (Some e) \<and> date e = JUndefined \<and> dateKey e = k \<and>
                 isSick e = b \<and> new_Date P (date e) = Inr None \<and>
                 (\<forall>prev merged. merge_saved P prev e = Inr merged \<longrightarrow> e \<in> set merged))) \<and>
         (\<forall>err. b \<longrightarrow> Number P (js_or (the_prop (JObj ps) ''severity'') (JNum (Fin 1))) = Inl err \<longrightarrow>
            normalizeEntry P (JObj ps) = Inl err) \<and>
         (\<forall>qs. b \<longrightarrow> map_of ps ''severity'' = Some (JObj qs) \<longrightarrow> ''toString'' \<in> fst ` set qs \<longrightarrow>
            normalizeEntry P (JObj ps) = Inl TypeError)"
proof -
  let ?sev = "js_or (the_prop (JObj ps) ''severity'') (JNum (Fin 1))"
  have g: "isValidDateKey (the_prop (JObj ps) ''dateKey'')" "the_prop (JObj ps) ''isSick'' = JBool b"
    "the_prop (JObj ps) ''date'' = JUndefined"
    "(case the_prop (JObj ps) ''dateKey'' of JStr s \<Rightarrow> s | _ \<Rightarrow> []) = k"
    using assms by (simp_all add: the_prop_object isValidDateKey_def)
  note n = normalizeEntry_dated [OF object_guard g(1,2), of P, unfolded g(3,4)]
  have accepted: "\<exists>e. normalizeEntry P (JObj ps) = Inr (Some e) \<and> date e = JUndefined \<and> dateKey e = k \<and>
                 isSick e = b \<and> new_Date P (date e) = Inr None \<and>
                 (\<forall>prev merged. merge_saved P prev e = Inr merged \<longrightarrow> e \<in> set merged)"
    if "b \<longrightarrow> (\<exists>n. Number P ?sev = Inr n)"
  proof -
    have "\<exists>sv. severity_of P (JObj ps) = Inr sv"
      using that g(2) by (cases b) (auto simp: severity_of_def)
    then obtain sv where sv: "severity_of P (JObj ps) = Inr sv" by blast
    let ?e = "\<lparr>entry_id = js_or (js_or (the_prop (JObj ps) ''id'') (the_prop (JObj ps) ''_id'')) JNull,
               date = JUndefined, dateKey = k, isSick = b, severity = sv\<rparr>"
    have "normalizeEntry P (JObj ps) = Inr (Some ?e)" unfolding n sv by simp
    moreover have "new_Date P (date ?e) = Inr None" by (simp add: new_Date_undefined)
    moreover have "?e \<in> set merged" if "merge_saved P prev ?e = Inr merged" for prev merged
      using merge_saved_set [OF that] by simp
    ultimately show ?thesis by (intro exI [of _ ?e]) simp
  qed
  have thrown: "normalizeEntry P (JObj ps) = Inl err" if "b" "Number P ?sev = Inl err" for err
    unfolding n using that g(2) by (simp add: severity_of_def)
  have object: "normalizeEntry P (JObj ps) = Inl TypeError"
    if "b" "map_of ps ''severity'' = Some (JObj qs)" "''toString'' \<in> fst ` set qs" for qs
  proof -
    have "?sev = JObj qs" using that(2) by (simp add: the_prop_object js_or_def truthy_def)
    then have "Number P ?sev = Inl TypeError" using that(3) by (simp add: Number_def ToPrimitive_def)
    then show ?thesis using that(1) by (rule thrown [rotated])
  qed
  show ?thesis using accepted thrown object by blast
qed

text \<open>
  Instances: with the severity \<^verbatim>\<open>{}\<close> the raw entry is accepted, with the severity
  \<^verbatim>\<open>Number({})\<close>, which is NaN; with the severity \<^verbatim>\<open>{ toString: 1 }\<close> a TypeError is
  thrown.
\<close>

theorem C10_witness:
  "map_of [(''dateKey'', JStr ''2024-03-05''), (''isSick'', JBool True), (''severity'', JObj [])] ''dateKey''
     = Some (JStr ''2024-03-05'') \<and>
   date_key_pattern ''2024-03-05'' \<and>
   map_of [(''dateKey'', JStr ''2024-03-05''), (''isSick'', JBool True), (''severity'', JObj [])] ''isSick''
     = Some (JBool True) \<and>
   map_of [(''dateKey'', JStr ''2024-03-05''), (''isSick'', JBool True), (''severity'', JObj [])] ''date''
     = None \<and>
   Number test_platform (js_or (the_prop (raw_sick (JObj [])) ''severity'') (JNum (Fin 1))) = Inr NaN \<and>
   normalizeEntry test_platform (raw_sick (JObj [])) =
     Inr (Some \<lparr>entry_id = JNull, date = JUndefined, dateKey = ''2024-03-05'', isSick = True,
                severity = Some NaN\<rparr>) \<and>
   new_Date test_platform JUndefined = Inr None \<and>
   map_of [(''dateKey'', JStr ''2024-03-05''), (''isSick'', JBool True),
           (''severity'', JObj [(''toString'', JNum (Fin 1))])] ''severity''
     = Some (JObj [(''toString'', JNum (Fin 1))]) \<and>
   ''toString'' \<in> fst ` set [(''toString'', JNum (Fin 1))] \<and>
   normalizeEntry test_platform (raw_sick (JObj [(''toString'', JNum (Fin 1))])) = Inl TypeError"
proof -
  have h: "map_of [(''dateKey'', JStr ''2024-03-05''), (''isSick'', JBool True), (''severity'', v)] ''dateKey''
      = Some (JStr ''2024-03-05'')"
    "date_key_pattern ''2024-03-05''"
    "map_of [(''dateKey'', JStr ''2024-03-05''), (''isSick'', JBool True), (''severity'', v)] ''isSick''
      = Some (JBool True)"
    "map_of [(''dateKey'', JStr ''2024-03-05''), (''isSick'', JBool True), (''severity'', v)] ''date'' = None"
    for v
    by (simp_all add: is_digit_def)
  have s: "the_prop (raw_sick v) ''severity'' = v" for v
    by (simp add: raw_sick_def the_prop_object)
  have n: "Number test_platform (js_or (JObj []) (JNum (Fin 1))) = Inr NaN"
    by (simp add: js_or_def truthy_def Number_def ToPrimitive_def ToNumber_primitive_def
        string_to_number_def is_digit_def test_platform_def)
  have e: "normalizeEntry test_platform (raw_sick (JObj [])) =
     Inr (Some \<lparr>entry_id = JNull, date = JUndefined, dateKey = ''2024-03-05'', isSick = True,
                severity = Some NaN\<rparr>)"
    by (simp add: raw_sick_entry n)
  have t: "normalizeEntry test_platform (raw_sick (JObj [(''toString'', JNum (Fin 1))])) = Inl TypeError"
    by (simp add: raw_sick_entry js_or_def truthy_def Number_bad_object)
  show ?thesis
    using C10_entry_without_date [OF h, of test_platform "JObj []"]
      C10_entry_without_date [OF h, of test_platform "JObj [(''toString'', JNum (Fin 1))]"]
    by (simp add: h s n e t new_Date_undefined is_digit_def)
qed

section \<open>C3: the merge step\<close>

text \<open>
  C3, as amended. Let the round trip of \<^verbatim>\<open>commitSave\<close> have given the saved entry. Whenever
  the merge step returns, the collection holds exactly one entry with the date key of the
  saved entry, the saved entry itself. If the date of the saved entry and of every entry of
  the collection is a valid Date, the merge step returns and the collection is sorted ascending
  by date.
\<close>

theorem C3_merge:
  assumes "normalizeEntry P (the_prop body ''entry'') = Inr (Some saved)"
  shows "(\<forall>s'. commitSave P s payload (Returns body) = Inr s' \<longrightarrow>
            length (filter (\<lambda>e. dateKey e = dateKey saved) (entries s')) = 1 \<and> saved \<in> set (entries s')) \<and>
         (list_all (has_valid_date P) (saved # entries s) \<longrightarrow>
            (\<exists>s'. commitSave P s payload (Returns body) = Inr s' \<and> sorted_by_date P (entries s')))"
proof (intro conjI allI impI)
  fix s'
  assume "commitSave P s payload (Returns body) = Inr s'"
  then obtain merged where m: "merge_saved P (entries s) saved = Inr merged" "entries s' = merged"
    unfolding commitSave_saved [OF assms] by (auto simp: bind_err_eq_Inr)
  show "length (filter (\<lambda>e. dateKey e = dateKey saved) (entries s')) = 1"
    using merge_saved_one_key [OF m(1)] m(2) by simp
  show "saved \<in> set (entries s')"
    using merge_saved_set [OF m(1)] m(2) by simp
next
  assume "list_all (has_valid_date P) (saved # entries s)"
  then obtain merged where "merge_saved P (entries s) saved = Inr merged" "sorted_by_date P merged"
    using merge_saved_total by blast
  then show "\<exists>s'. commitSave P s payload (Returns body) = Inr s' \<and> sorted_by_date P (entries s')"
    unfolding commitSave_saved [OF assms] by simp
qed

theorem C3_witness:
  "normalizeEntry test_platform (the_prop (JObj [(''entry'', raw_dated ''2024-06-01'')]) ''entry'')
     = Inr (Some (dated_entry ''2024-06-01'' False None)) \<and>
   list_all (has_valid_date test_platform)
     (dated_entry ''2024-06-01'' False None # entries (home_2024 [dated_entry ''2024-06-10'' False None])) \<and>
   (\<exists>s'. commitSave test_platform (home_2024 [dated_entry ''2024-06-10'' False None])
            (healthy_payload ''2024-06-01'') (Returns (JObj [(''entry'', raw_dated ''2024-06-01'')])) = Inr s' \<and>
         sorted_by_date test_platform (entries s') \<and>
         length (filter (\<lambda>e. dateKey e = ''2024-06-01'') (entries s')) = 1)"
proof -
  have h: "normalizeEntry test_platform (the_prop (JObj [(''entry'', raw_dated ''2024-06-01'')]) ''entry'')
     = Inr (Some (dated_entry ''2024-06-01'' False None))"
    by (simp add: the_prop_object raw_dated_entry [OF pattern_test(1)])
  have v: "list_all (has_valid_date test_platform)
     (dated_entry ''2024-06-01'' False None # entries (home_2024 [dated_entry ''2024-06-10'' False None]))"
    by (simp add: home_2024_def valid_test)
  have k: "dateKey (dated_entry ''2024-06-01'' False None) = ''2024-06-01''" by (simp add: dated_entry_def)
  show ?thesis
    using h v C3_merge [OF h, of "home_2024 [dated_entry ''2024-06-10'' False None]" "healthy_payload ''2024-06-01''"]
    unfolding k by blast
qed

text \<open>
  The claim as stated promises the order for every collection. \<^verbatim>\<open>normalizeEntry\<close> accepts
  an entry without a date (C10), and the comparator gives NaN for it, which the sort reads as
  equal. With the collection of June 10 and of an undated March 1, saving January 5 leaves
  June 10 before January 5.
\<close>

theorem C3_counterexample:
  "normalizeEntry test_platform (the_prop (JObj [(''entry'', raw_dated ''2024-01-05'')]) ''entry'')
     = Inr (Some (dated_entry ''2024-01-05'' False None)) \<and>
   map_sum id entries
     (commitSave test_platform
        (home_2024 [dated_entry ''2024-06-10'' False None, undated_entry ''2024-03-01''])
        (healthy_payload ''2024-01-05'') (Returns (JObj [(''entry'', raw_dated ''2024-01-05'')]))) =
     Inr [dated_entry ''2024-06-10'' False None, undated_entry ''2024-03-01'',
          dated_entry ''2024-01-05'' False None] \<and>
   \<not> sorted_by_date test_platform
       [dated_entry ''2024-06-10'' False None, undated_entry ''2024-03-01'',
        dated_entry ''2024-01-05'' False None] \<and>
   new_Date test_platform (date (dated_entry ''2024-06-10'' False None)) = Inr (Some 1717977600000) \<and>
   new_Date test_platform (date (dated_entry ''2024-01-05'' False None)) = Inr (Some 1704412800000)"
proof -
  have h: "normalizeEntry test_platform (the_prop (JObj [(''entry'', raw_dated ''2024-01-05'')]) ''entry'')
     = Inr (Some (dated_entry ''2024-01-05'' False None))"
    by (simp add: the_prop_object raw_dated_entry [OF pattern_test(2)])
  have d: "new_Date test_platform (date (dated_entry ''2024-06-10'' False None)) = Inr (Some 1717977600000)"
    "new_Date test_platform (date (dated_entry ''2024-01-05'' False None)) = Inr (Some 1704412800000)"
    by (simp_all add: dated_entry_def new_Date_test)
  have n: "\<not> sorted_by_date test_platform
       [dated_entry ''2024-06-10'' False None, undated_entry ''2024-03-01'',
        dated_entry ''2024-01-05'' False None]"
    by (simp add: sorted_by_date_def date_le_def d)
  have e: "entries (home_2024 [dated_entry ''2024-06-10'' False None, undated_entry ''2024-03-01''])
      = [dated_entry ''2024-06-10'' False None, undated_entry ''2024-03-01'']"
    by (simp add: home_2024_def)
  show ?thesis
    using h d n by (simp add: commitSave_saved [OF h] e merge_test)
qed

section \<open>C9: transport failure\<close>

text \<open>
  C9. When awaiting \<^verbatim>\<open>saveEntry\<close> throws, \<^verbatim>\<open>commitSave\<close> returns with the collection
  and the known years unchanged, an error message shown, and one request sent. When
  awaiting \<^verbatim>\<open>fetchEntriesByYear\<close> throws, the collection is empty, an error message is
  shown, and one request was sent.
\<close>

theorem C9_transport_failure:
  "(\<exists>s'. commitSave P s payload (Throws e) = Inr s' \<and> entries s' = entries s \<and>
         yearsFromApi s' = yearsFromApi s \<and> error_text s' \<noteq> [] \<and> \<not> busy s' \<and>
         requests s' = requests s @ [SaveEntry payload]) \<and>
   entries (fetchEntries P s (Throws e)) = [] \<and>
   error_text (fetchEntries P s (Throws e)) \<noteq> [] \<and>
   \<not> busy (fetchEntries P s (Throws e)) \<and>
   requests (fetchEntries P s (Throws e)) = requests s @ [FetchEntriesByYear (selectedYear s)]"
  by (simp add: commitSave_def fetchEntries_def Let_def message_or_def)

theorem C9_witness:
  "(\<exists>s'. commitSave test_platform (home_2024 [dated_entry ''2024-06-10'' False None])
            (healthy_payload ''2024-06-01'') (Throws (Error ''Failed to save entry'')) = Inr s' \<and>
         entries s' = [dated_entry ''2024-06-10'' False None] \<and>
         error_text s' \<noteq> [] \<and>
         requests s' = [SaveEntry (healthy_payload ''2024-06-01'')]) \<and>
   entries (fetchEntries test_platform (home_2024 [dated_entry ''2024-06-10'' False None])
              (Throws (Error ''Failed to fetch entries''))) = [] \<and>
   error_text (fetchEntries test_platform (home_2024 [dated_entry ''2024-06-10'' False None])
              (Throws (Error ''Failed to fetch entries''))) \<noteq> [] \<and>
   requests (fetchEntries test_platform (home_2024 [dated_entry ''2024-06-10'' False None])
              (Throws (Error ''Failed to fetch entries''))) = [FetchEntriesByYear 2024]"
  using C9_transport_failure [of test_platform "home_2024 [dated_entry ''2024-06-10'' False None]"
      "healthy_payload ''2024-06-01''" "Error ''Failed to save entry''"]
    C9_transport_failure [of test_platform "home_2024 [dated_entry ''2024-06-10'' False None]"
      "healthy_payload ''2024-06-01''" "Error ''Failed to fetch entries''"]
  by (auto simp: home_2024_def)

section \<open>C4: update or new entry on submit\<close>




end
